theory Spec2Isabelle
  imports Main "HOL-Library.Word"
begin

section \<open>Byte buffers, Python values and exceptions\<close>

text \<open>
  A Python \<^verbatim>\<open>bytes\<close> object is a list of octets. Integers read from the wire are
  unsigned, so they are kept as \<open>nat\<close> and embedded into Python values as \<open>int\<close>.
\<close>

type_synonym byte = "8 word"
type_synonym bytes = "byte list"

text \<open>
  The exceptions the decoders can raise: \<^verbatim>\<open>IndexError\<close> from indexing, \<^verbatim>\<open>struct.error\<close>
  from \<^verbatim>\<open>struct.unpack\<close> and \<^verbatim>\<open>struct.pack\<close>, and \<^verbatim>\<open>UpdateMessageError\<close> with its
  \<^verbatim>\<open>sub_error\<close> code.
\<close>

datatype error = IndexError | StructError | UpdateMessageError nat

text \<open>The untyped values the decoders return: \<^verbatim>\<open>None\<close>, ints, strings, lists and dicts
  (a dict keeps its keys in insertion order).\<close>

datatype pyval =
    VNone
  | VInt int
  | VStr string
  | VList "pyval list"
  | VDict "(string \<times> pyval) list"

text \<open>\<^verbatim>\<open>data[a:b]\<close> for non-negative \<open>a\<close>, \<open>b\<close>: never raises, clips at the end of the buffer.\<close>

definition slice :: "'a list \<Rightarrow> nat \<Rightarrow> nat \<Rightarrow> 'a list" where
  "slice data a b = take (b - a) (drop a data)"

text \<open>Big-endian unsigned value of a byte string.\<close>

definition be_nat :: "bytes \<Rightarrow> nat" where
  "be_nat bs = foldl (\<lambda>acc b. acc * 256 + unat b) 0 bs"

text \<open>
  \<^verbatim>\<open>struct.unpack\<close> raises \<^verbatim>\<open>struct.error\<close> unless the buffer has exactly the size of
  the format: 2 bytes for \<^verbatim>\<open>!H\<close>, 4 for \<^verbatim>\<open>!I\<close>, 8 for \<^verbatim>\<open>!Q\<close>, 4 for \<^verbatim>\<open>!HH\<close> and
  \<^verbatim>\<open>!BBBB\<close>.
\<close>

definition struct_unpack_H :: "bytes \<Rightarrow> error + nat" where
  "struct_unpack_H bs = (if length bs = 2 then Inr (be_nat bs) else Inl StructError)"

definition struct_unpack_I :: "bytes \<Rightarrow> error + nat" where
  "struct_unpack_I bs = (if length bs = 4 then Inr (be_nat bs) else Inl StructError)"

definition struct_unpack_Q :: "bytes \<Rightarrow> error + nat" where
  "struct_unpack_Q bs = (if length bs = 8 then Inr (be_nat bs) else Inl StructError)"

definition struct_unpack_HH :: "bytes \<Rightarrow> error + (nat \<times> nat)" where
  "struct_unpack_HH bs =
     (if length bs = 4 then Inr (be_nat (take 2 bs), be_nat (drop 2 bs)) else Inl StructError)"

definition struct_unpack_BBBB :: "bytes \<Rightarrow> error + (nat \<times> nat \<times> nat \<times> nat)" where
  "struct_unpack_BBBB bs =
     (if length bs = 4 then Inr (unat (bs ! 0), unat (bs ! 1), unat (bs ! 2), unat (bs ! 3))
      else Inl StructError)"

text \<open>\<^verbatim>\<open>range(start, stop, step)\<close> for a positive step.\<close>

definition py_range :: "nat \<Rightarrow> nat \<Rightarrow> nat \<Rightarrow> nat list" where
  "py_range start stop step =
     map (\<lambda>k. start + k * step) [0..<(stop - start + step - 1) div step]"

text \<open>A \<^verbatim>\<open>for\<close> loop over a list whose body may raise: the first exception ends the loop.\<close>

fun for_loop :: "'i list \<Rightarrow> ('i \<Rightarrow> 's \<Rightarrow> error + 's) \<Rightarrow> 's \<Rightarrow> error + 's" where
  "for_loop [] body s = Inr s"
| "for_loop (i # is) body s =
     (case body i s of Inl e \<Rightarrow> Inl e | Inr s' \<Rightarrow> for_loop is body s')"

subsection \<open>Hexadecimal text\<close>

definition hex_digit :: "nat \<Rightarrow> char" where
  "hex_digit d = ''0123456789abcdef'' ! d"

text \<open>\<^verbatim>\<open>binascii.b2a_hex\<close>: two lower-case digits per byte.\<close>

definition b2a_hex :: "bytes \<Rightarrow> string" where
  "b2a_hex bs = concat (map (\<lambda>b. [hex_digit (unat b div 16), hex_digit (unat b mod 16)]) bs)"

text \<open>
  \<^verbatim>\<open>str(b)\<close> of a Python 3 \<^verbatim>\<open>bytes\<close> object is its \<^verbatim>\<open>repr\<close>: the letter b and the
  content between single quotes. The content here is always the output of
  \<^verbatim>\<open>b2a_hex\<close>, printable digits that need no escape.
\<close>

definition str_bytes :: "string \<Rightarrow> string" where
  "str_bytes s = ''b'' @ [CHR 0x27] @ s @ [CHR 0x27]"

text \<open>The digits of \<^verbatim>\<open>'{:x}'.format(n)\<close>, and \<^verbatim>\<open>'{:0wx}'.format(n)\<close> padded to width \<open>w\<close>.\<close>

fun hex_of_nat :: "nat \<Rightarrow> string" where
  "hex_of_nat n = (if n < 16 then [hex_digit n] else hex_of_nat (n div 16) @ [hex_digit (n mod 16)])"

declare hex_of_nat.simps [simp del]

definition format_0x :: "nat \<Rightarrow> nat \<Rightarrow> string" where
  "format_0x w n = replicate (w - length (hex_of_nat n)) CHR ''0'' @ hex_of_nat n"

section \<open>The TLV base class and the registry\<close>

text \<open>An instance of a TLV class: the class constants \<^verbatim>\<open>TYPE\<close> and \<^verbatim>\<open>TYPE_STR\<close>, and the
  decoded \<^verbatim>\<open>value\<close>.\<close>

record tlv =
  tlv_type :: nat
  tlv_type_str :: string
  tlv_value :: pyval

text \<open>
  Modelled from the spec: \<^verbatim>\<open>TLV.dict()\<close> of the base class \<^verbatim>\<open>yabgp.tlv.TLV\<close>, which is
  not among the sources. The semantic mapping of an instance is tagged with the display
  name of its class: \<^verbatim>\<open>{'type': TYPE_STR, 'value': value}\<close>.
\<close>

definition tlv_dict :: "tlv \<Rightarrow> pyval" where
  "tlv_dict t = VDict [(''type'', VStr (tlv_type_str t)), (''value'', tlv_value t)]"

text \<open>
  \<^verbatim>\<open>LinkState.registered_tlvs\<close> maps a type code to a class; all a container uses of a
  class is its \<^verbatim>\<open>unpack\<close>. The table is filled by modules that are not all among the
  sources, so the containers take it as a parameter.
\<close>

type_synonym registry = "nat \<Rightarrow> (bytes \<Rightarrow> error + tlv) option"

section \<open>MultiTopologyIdentifier (type 263)\<close>

function mt_id_loop :: "bytes \<Rightarrow> nat list \<Rightarrow> error + nat list" where
  "mt_id_loop data mt_id =
     (if data \<noteq> [] then
        (case struct_unpack_H (take 2 data) of
           Inl e \<Rightarrow> Inl e
         | Inr v \<Rightarrow> mt_id_loop (drop 2 data) (mt_id @ [v]))
      else Inr mt_id)"
  by pat_completeness auto
termination
  by (relation "measure (\<lambda>(data, mt_id). length data)") auto

declare mt_id_loop.simps [simp del]

definition MultiTopologyIdentifier_unpack :: "bytes \<Rightarrow> error + tlv" where
  "MultiTopologyIdentifier_unpack data =
     (case mt_id_loop data [] of
        Inl e \<Rightarrow> Inl e
      | Inr mt_id \<Rightarrow>
          Inr \<lparr>tlv_type = 263, tlv_type_str = ''mt_id'', tlv_value = VList (map (\<lambda>v. VInt (int v)) mt_id)\<rparr>)"

section \<open>Flexible Algorithm Definition sub-TLVs (types 1040 to 1044)\<close>

definition FlexAlgoExcludeAdminGroup_unpack :: "bytes \<Rightarrow> error + tlv" where
  "FlexAlgoExcludeAdminGroup_unpack data =
     (case for_loop (py_range 0 (length data) 4)
             (\<lambda>i admin_groups.
                case struct_unpack_I (slice data i (i + 4)) of
                  Inl e \<Rightarrow> Inl e
                | Inr v \<Rightarrow> Inr (admin_groups @ [v])) [] of
        Inl e \<Rightarrow> Inl e
      | Inr admin_groups \<Rightarrow>
          Inr \<lparr>tlv_type = 1040, tlv_type_str = ''flex_algo_excl_admin_group'',
               tlv_value = VList (map (\<lambda>v. VInt (int v)) admin_groups)\<rparr>)"

definition FlexAlgoIncludeAnyAdminGroup_unpack :: "bytes \<Rightarrow> error + tlv" where
  "FlexAlgoIncludeAnyAdminGroup_unpack data =
     (case for_loop (py_range 0 (length data) 4)
             (\<lambda>i admin_groups.
                case struct_unpack_I (slice data i (i + 4)) of
                  Inl e \<Rightarrow> Inl e
                | Inr v \<Rightarrow> Inr (admin_groups @ [v])) [] of
        Inl e \<Rightarrow> Inl e
      | Inr admin_groups \<Rightarrow>
          Inr \<lparr>tlv_type = 1041, tlv_type_str = ''flex_algo_incl_any_admin_group'',
               tlv_value = VList (map (\<lambda>v. VInt (int v)) admin_groups)\<rparr>)"

definition FlexAlgoIncludeAllAdminGroup_unpack :: "bytes \<Rightarrow> error + tlv" where
  "FlexAlgoIncludeAllAdminGroup_unpack data =
     (case for_loop (py_range 0 (length data) 4)
             (\<lambda>i admin_groups.
                case struct_unpack_I (slice data i (i + 4)) of
                  Inl e \<Rightarrow> Inl e
                | Inr v \<Rightarrow> Inr (admin_groups @ [v])) [] of
        Inl e \<Rightarrow> Inl e
      | Inr admin_groups \<Rightarrow>
          Inr \<lparr>tlv_type = 1042, tlv_type_str = ''flex_algo_incl_all_admin_group'',
               tlv_value = VList (map (\<lambda>v. VInt (int v)) admin_groups)\<rparr>)"

text \<open>\<^verbatim>\<open>flags >> 15\<close> on a Python int is the quotient by \<open>2 ^ 15\<close>.\<close>

definition FlexAlgoDefinitionFlags_unpack :: "bytes \<Rightarrow> error + tlv" where
  "FlexAlgoDefinitionFlags_unpack data =
     (case struct_unpack_H (take 2 data) of
        Inl e \<Rightarrow> Inl e
      | Inr flags \<Rightarrow>
          Inr \<lparr>tlv_type = 1043, tlv_type_str = ''flex_algo_defn_flags'',
               tlv_value = VDict [(''M'', VInt (int (flags div 2 ^ 15)))]\<rparr>)"

definition FlexAlgoExcludeSRLG_unpack :: "bytes \<Rightarrow> error + tlv" where
  "FlexAlgoExcludeSRLG_unpack data =
     (case for_loop (py_range 0 (length data) 4)
             (\<lambda>i srlg_list.
                case struct_unpack_I (slice data i (i + 4)) of
                  Inl e \<Rightarrow> Inl e
                | Inr v \<Rightarrow> Inr (srlg_list @ [v])) [] of
        Inl e \<Rightarrow> Inl e
      | Inr srlg_list \<Rightarrow>
          Inr \<lparr>tlv_type = 1044, tlv_type_str = ''flex_algo_excl_srlg'',
               tlv_value = VList (map (\<lambda>v. VInt (int v)) srlg_list)\<rparr>)"

section \<open>FlexAlgorithmDefine (type 1039)\<close>

text \<open>
  The sub-TLV walk: a 4-byte header read with \<^verbatim>\<open>!HH\<close>, the value sliced after it, a
  registered class decoded and turned into its semantic mapping, any other type code kept
  as \<^verbatim>\<open>{'type': code, 'value': str(binascii.b2a_hex(value))}\<close>.
\<close>

function fad_sub_tlvs_loop :: "registry \<Rightarrow> bytes \<Rightarrow> pyval list \<Rightarrow> error + pyval list" where
  "fad_sub_tlvs_loop registered_tlvs sub_tlvs_bin_data sub_tlvs =
     (if sub_tlvs_bin_data \<noteq> [] then
        (case struct_unpack_HH (take 4 sub_tlvs_bin_data) of
           Inl e \<Rightarrow> Inl e
         | Inr (sub_tlvs_type_code, sub_tlvs_length) \<Rightarrow>
             (case (case registered_tlvs sub_tlvs_type_code of
                      Some unpack \<Rightarrow>
                        (case unpack (slice sub_tlvs_bin_data 4 (4 + sub_tlvs_length)) of
                           Inl e \<Rightarrow> Inl e
                         | Inr t \<Rightarrow> Inr (tlv_dict t))
                    | None \<Rightarrow>
                        Inr (VDict [(''type'', VInt (int sub_tlvs_type_code)),
                                    (''value'', VStr (str_bytes (b2a_hex
                                       (slice sub_tlvs_bin_data 4 (4 + sub_tlvs_length)))))])) of
                Inl e \<Rightarrow> Inl e
              | Inr d \<Rightarrow>
                  fad_sub_tlvs_loop registered_tlvs
                    (drop (4 + sub_tlvs_length) sub_tlvs_bin_data) (sub_tlvs @ [d])))
      else Inr sub_tlvs)"
  by pat_completeness auto
termination
  by (relation "measure (\<lambda>(registered_tlvs, sub_tlvs_bin_data, sub_tlvs). length sub_tlvs_bin_data)")
    auto

declare fad_sub_tlvs_loop.simps [simp del]

definition FlexAlgorithmDefine_unpack :: "registry \<Rightarrow> bytes \<Rightarrow> error + tlv" where
  "FlexAlgorithmDefine_unpack registered_tlvs data =
     (case struct_unpack_BBBB (take 4 data) of
        Inl e \<Rightarrow> Inl e
      | Inr (flex_algo, metric_type, calc_type, priority) \<Rightarrow>
          (case fad_sub_tlvs_loop registered_tlvs (drop 4 data) [] of
             Inl e \<Rightarrow> Inl e
           | Inr sub_tlvs \<Rightarrow>
               Inr \<lparr>tlv_type = 1039, tlv_type_str = ''flex_algo_defn'',
                    tlv_value = VDict [(''flex_algo'', VInt (int flex_algo)),
                                       (''metric_type'', VInt (int metric_type)),
                                       (''calc_type'', VInt (int calc_type)),
                                       (''priority'', VInt (int priority)),
                                       (''sub_tlvs'', VList sub_tlvs)]\<rparr>))"

section \<open>AppSpecLinkAttr (type 1122)\<close>

function asla_sub_tlvs_loop :: "registry \<Rightarrow> bytes \<Rightarrow> pyval list \<Rightarrow> error + pyval list" where
  "asla_sub_tlvs_loop registered_tlvs sub_tlvs_bin_data sub_tlvs =
     (if sub_tlvs_bin_data \<noteq> [] then
        (case struct_unpack_HH (take 4 sub_tlvs_bin_data) of
           Inl e \<Rightarrow> Inl e
         | Inr (sub_tlv_type, sub_tlv_len) \<Rightarrow>
             (case (case registered_tlvs sub_tlv_type of
                      Some unpack \<Rightarrow>
                        (case unpack (slice sub_tlvs_bin_data 4 (4 + sub_tlv_len)) of
                           Inl e \<Rightarrow> Inl e
                         | Inr t \<Rightarrow> Inr (tlv_dict t))
                    | None \<Rightarrow>
                        Inr (VDict [(''type'', VInt (int sub_tlv_type)),
                                    (''value'', VStr (str_bytes (b2a_hex
                                       (slice sub_tlvs_bin_data 4 (4 + sub_tlv_len)))))])) of
                Inl e \<Rightarrow> Inl e
              | Inr d \<Rightarrow>
                  asla_sub_tlvs_loop registered_tlvs
                    (drop (4 + sub_tlv_len) sub_tlvs_bin_data) (sub_tlvs @ [d])))
      else Inr sub_tlvs)"
  by pat_completeness auto
termination
  by (relation "measure (\<lambda>(registered_tlvs, sub_tlvs_bin_data, sub_tlvs). length sub_tlvs_bin_data)")
    auto

declare asla_sub_tlvs_loop.simps [simp del]

text \<open>
  The fixed header is read by indexing: \<^verbatim>\<open>data[0]\<close> and \<^verbatim>\<open>data[1]\<close> raise
  \<^verbatim>\<open>IndexError\<close> on a buffer of fewer than two bytes; the two reserved bytes are not
  read. Each mask block yields the mask text and the offset after it.
\<close>

definition AppSpecLinkAttr_unpack :: "registry \<Rightarrow> bytes \<Rightarrow> error + tlv" where
  "AppSpecLinkAttr_unpack registered_tlvs data =
     (if length data < 2 then Inl IndexError
      else
        let sabm_len = unat (data ! 0);
            udabm_len = unat (data ! 1);
            offset = 4
        in
        (case (if sabm_len > 0 then
                 (let sabm_bytes = slice data offset (offset + sabm_len) in
                  (case (if sabm_len = 4 then
                           (case struct_unpack_I sabm_bytes of
                              Inl e \<Rightarrow> Inl e
                            | Inr sabm_int \<Rightarrow> Inr (VStr (''0x'' @ format_0x 8 sabm_int)))
                         else if sabm_len = 8 then
                           (case struct_unpack_Q sabm_bytes of
                              Inl e \<Rightarrow> Inl e
                            | Inr sabm_int \<Rightarrow> Inr (VStr (''0x'' @ format_0x 16 sabm_int)))
                         else Inr (VStr (''0x'' @ b2a_hex sabm_bytes))) of
                     Inl e \<Rightarrow> Inl e
                   | Inr sabm \<Rightarrow> Inr (sabm, offset + sabm_len)))
               else Inr (VNone, offset)) of
           Inl e \<Rightarrow> Inl e
         | Inr (sabm, offset) \<Rightarrow>
             (case (if udabm_len > 0 then
                      (let udabm_bytes = slice data offset (offset + udabm_len) in
                       (case (if udabm_len = 4 then
                                (case struct_unpack_I udabm_bytes of
                                   Inl e \<Rightarrow> Inl e
                                 | Inr udabm_int \<Rightarrow> Inr (VStr (''0x'' @ format_0x 8 udabm_int)))
                              else if udabm_len = 8 then
                                (case struct_unpack_Q udabm_bytes of
                                   Inl e \<Rightarrow> Inl e
                                 | Inr udabm_int \<Rightarrow> Inr (VStr (''0x'' @ format_0x 16 udabm_int)))
                              else Inr (VStr (''0x'' @ b2a_hex udabm_bytes))) of
                          Inl e \<Rightarrow> Inl e
                        | Inr udabm \<Rightarrow> Inr (udabm, offset + udabm_len)))
                    else Inr (VNone, offset)) of
                Inl e \<Rightarrow> Inl e
              | Inr (udabm, offset) \<Rightarrow>
                  (case asla_sub_tlvs_loop registered_tlvs (drop offset data) [] of
                     Inl e \<Rightarrow> Inl e
                   | Inr sub_tlvs \<Rightarrow>
                       Inr \<lparr>tlv_type = 1122, tlv_type_str = ''ASLA'',
                            tlv_value =
                              VDict [(''sabm'', VDict [(''len'', VInt (int sabm_len)), (''value'', sabm)]),
                                     (''udabm'', VDict [(''len'', VInt (int udabm_len)), (''value'', udabm)]),
                                     (''sub_tlvs'', VList sub_tlvs)]\<rparr>))))"

text \<open>
  The classes of the registry that the sources define and that decode without the
  registry itself; the containers above are entered with the table they are given.
\<close>

definition leaf_tlvs :: registry where
  "leaf_tlvs code =
     (if code = 263 then Some MultiTopologyIdentifier_unpack
      else if code = 1040 then Some FlexAlgoExcludeAdminGroup_unpack
      else if code = 1041 then Some FlexAlgoIncludeAnyAdminGroup_unpack
      else if code = 1042 then Some FlexAlgoIncludeAllAdminGroup_unpack
      else if code = 1043 then Some FlexAlgoDefinitionFlags_unpack
      else if code = 1044 then Some FlexAlgoExcludeSRLG_unpack
      else None)"

section \<open>The AS_PATH codec\<close>

text \<open>
  Modelled from the spec: \<^verbatim>\<open>ASPath.parse\<close> and \<^verbatim>\<open>ASPath.construct\<close> of
  \<^verbatim>\<open>yabgp/message/attribute/aspath.py\<close> and the two sub-error constants of
  \<^verbatim>\<open>yabgp/common/constants.py\<close>, none of which is among the sources (only their unit
  test is). The sub-codes are those of RFC 4271 for the UPDATE message: 5 is Attribute
  Length Error, 11 is Malformed AS_PATH.
\<close>

definition ERR_MSG_UPDATE_ATTR_LEN :: nat where
  "ERR_MSG_UPDATE_ATTR_LEN = 5"

text \<open>Modelled from the spec: the Malformed AS_PATH sub-code of RFC 4271.\<close>

definition ERR_MSG_UPDATE_MALFORMED_ASPATH :: nat where
  "ERR_MSG_UPDATE_MALFORMED_ASPATH = 11"

type_synonym as_path = "(nat \<times> nat list) list"

text \<open>Modelled from the spec: the width of one ASN, 4 bytes with \<open>asn4\<close> and 2 without.\<close>

definition asn_width :: "bool \<Rightarrow> nat" where
  "asn_width asn4 = (if asn4 then 4 else 2)"

text \<open>
  Modelled from the spec: decoding. Repeatedly read a 2-byte segment header (a segment
  type that must be one of 1, 2, 3, 4, else Malformed AS_PATH; a count), then read count
  ASNs of the negotiated width; Attribute Length Error if fewer bytes remain than the
  header or the ASN body needs; the empty buffer is the empty path.
\<close>

function ASPath_parse :: "bool \<Rightarrow> bytes \<Rightarrow> error + as_path" where
  "ASPath_parse asn4 val =
     (if val = [] then Inr []
      else if length val < 2 then Inl (UpdateMessageError ERR_MSG_UPDATE_ATTR_LEN)
      else
        let seg_type = unat (val ! 0);
            seg_count = unat (val ! 1);
            w = asn_width asn4
        in
        if seg_type \<notin> {1, 2, 3, 4} then Inl (UpdateMessageError ERR_MSG_UPDATE_MALFORMED_ASPATH)
        else if length val - 2 < seg_count * w then Inl (UpdateMessageError ERR_MSG_UPDATE_ATTR_LEN)
        else
          (case ASPath_parse asn4 (drop (2 + seg_count * w) val) of
             Inl e \<Rightarrow> Inl e
           | Inr rest \<Rightarrow>
               Inr ((seg_type,
                     map (\<lambda>k. be_nat (slice val (2 + k * w) (2 + k * w + w))) [0..<seg_count])
                    # rest)))"
  by pat_completeness auto
termination
  by (relation "measure (\<lambda>(asn4, val). length val)") auto

declare ASPath_parse.simps [simp del]

text \<open>Modelled from the spec: an unsigned integer on \<open>w\<close> bytes, big-endian.\<close>

fun be_bytes :: "nat \<Rightarrow> nat \<Rightarrow> bytes" where
  "be_bytes 0 n = []"
| "be_bytes (Suc w) n = be_bytes w (n div 256) @ [of_nat n]"

text \<open>
  Modelled from the spec: a path is well formed when every segment type is one of
  1, 2, 3, 4 and every ASN fits the negotiated width.
\<close>

definition wf_path :: "bool \<Rightarrow> as_path \<Rightarrow> bool" where
  "wf_path asn4 path =
     list_all (\<lambda>(seg_type, asns).
        seg_type \<in> {1, 2, 3, 4} \<and>
        list_all (\<lambda>asn. asn < 256 ^ asn_width asn4) asns) path"

text \<open>
  Modelled from the spec: the segment count is one byte, so a segment that can be
  encoded holds at most 255 ASNs.
\<close>

definition counts_fit :: "as_path \<Rightarrow> bool" where
  "counts_fit path = list_all (\<lambda>(seg_type, asns). length asns \<le> 255) path"

text \<open>
  Modelled from the spec: encoding. For each segment the 2-byte header, then each ASN
  at the negotiated width; all segments concatenated.
\<close>

definition aspath_raw :: "bool \<Rightarrow> as_path \<Rightarrow> bytes" where
  "aspath_raw asn4 path =
     concat (map (\<lambda>(seg_type, asns).
        [of_nat seg_type, of_nat (length asns)] @ concat (map (be_bytes (asn_width asn4)) asns)) path)"

text \<open>
  Modelled from the spec: the standard attribute header that is prepended: the flags
  byte (transitive, \<open>0x40\<close>; with the extended-length bit \<open>0x10\<close> when the length needs
  two bytes), the AS_PATH type code 2, and the length on one byte or two.
\<close>

definition attr_header :: "nat \<Rightarrow> bytes" where
  "attr_header n = (if n \<le> 255 then [0x40, 0x02, of_nat n] else [0x50, 0x02] @ be_bytes 2 n)"

text \<open>
  Modelled from the spec: \<^verbatim>\<open>ASPath.construct\<close>. A value that does not fit its field
  cannot be packed (\<^verbatim>\<open>struct.error\<close>).
\<close>

definition ASPath_construct :: "bool \<Rightarrow> as_path \<Rightarrow> error + bytes" where
  "ASPath_construct asn4 path =
     (if list_all (\<lambda>(seg_type, asns).
           seg_type \<le> 255 \<and> length asns \<le> 255 \<and>
           list_all (\<lambda>asn. asn < 256 ^ asn_width asn4) asns) path \<and>
         length (aspath_raw asn4 path) < 65536
      then Inr (attr_header (length (aspath_raw asn4 path)) @ aspath_raw asn4 path)
      else Inl StructError)"

section \<open>Reference values for the list decoders\<close>

text \<open>The big-endian value of the \<open>k\<close>-th 2-byte and 4-byte chunk of a buffer, written out
  byte by byte.\<close>

definition u16_at :: "bytes \<Rightarrow> nat \<Rightarrow> nat" where
  "u16_at data k = unat (data ! (2 * k)) * 256 + unat (data ! (2 * k + 1))"

definition u32_at :: "bytes \<Rightarrow> nat \<Rightarrow> nat" where
  "u32_at data k =
     unat (data ! (4 * k)) * 2 ^ 24 + unat (data ! (4 * k + 1)) * 2 ^ 16 +
     unat (data ! (4 * k + 2)) * 2 ^ 8 + unat (data ! (4 * k + 3))"

text \<open>The body shared by the four \<^verbatim>\<open>for i in range(0, len(data), 4)\<close> loops.\<close>

definition u32_body :: "bytes \<Rightarrow> nat \<Rightarrow> nat list \<Rightarrow> error + nat list" where
  "u32_body data =
     (\<lambda>i acc. case struct_unpack_I (slice data i (i + 4)) of
                 Inl e \<Rightarrow> Inl e
               | Inr v \<Rightarrow> Inr (acc @ [v]))"

section \<open>Reference values for the mask text\<close>

text \<open>The \<open>w\<close> low hexadecimal digits of a number, most significant first.\<close>

fun hex_fixed :: "nat \<Rightarrow> nat \<Rightarrow> string" where
  "hex_fixed 0 n = []"
| "hex_fixed (Suc w) n = hex_fixed w (n div 16) @ [hex_digit (n mod 16)]"

text \<open>
  The text of a mask as the specification words it: \<^verbatim>\<open>None\<close> for a declared length of
  0; \<^verbatim>\<open>0x\<close> and 8 zero-padded hexadecimal digits of the mask value for a declared length
  of 4; \<^verbatim>\<open>0x\<close> and 16 such digits for a declared length of 8; \<^verbatim>\<open>0x\<close> and the
  hexadecimal dump of exactly the bytes present for any other length.
\<close>

definition mask_value :: "nat \<Rightarrow> bytes \<Rightarrow> pyval" where
  "mask_value len bs =
     (if len = 0 then VNone
      else if len = 4 then VStr (''0x'' @ hex_fixed 8 (be_nat bs))
      else if len = 8 then VStr (''0x'' @ hex_fixed 16 (be_nat bs))
      else VStr (''0x'' @ b2a_hex bs))"

text \<open>
  The block that \<^verbatim>\<open>AppSpecLinkAttr.unpack\<close> runs once for SABM and once for UDABM, with
  the offset it starts at and the declared length.
\<close>

definition mask_block :: "bytes \<Rightarrow> nat \<Rightarrow> nat \<Rightarrow> error + (pyval \<times> nat)" where
  "mask_block data offset len =
     (if len > 0 then
        (let mask_bytes = slice data offset (offset + len) in
         (case (if len = 4 then
                  (case struct_unpack_I mask_bytes of
                     Inl e \<Rightarrow> Inl e
                   | Inr mask_int \<Rightarrow> Inr (VStr (''0x'' @ format_0x 8 mask_int)))
                else if len = 8 then
                  (case struct_unpack_Q mask_bytes of
                     Inl e \<Rightarrow> Inl e
                   | Inr mask_int \<Rightarrow> Inr (VStr (''0x'' @ format_0x 16 mask_int)))
                else Inr (VStr (''0x'' @ b2a_hex mask_bytes))) of
            Inl e \<Rightarrow> Inl e
          | Inr m \<Rightarrow> Inr (m, offset + len)))
      else Inr (VNone, offset))"

section \<open>Reference values for the sub-TLV walk\<close>

text \<open>
  What one iteration appends for a sub-TLV of a given type code and value: the semantic
  mapping of the registered class, or the fallback record of an unregistered code.
\<close>

definition sub_tlv_entry :: "registry \<Rightarrow> nat \<Rightarrow> bytes \<Rightarrow> error + pyval" where
  "sub_tlv_entry registered_tlvs type_code val =
     (case registered_tlvs type_code of
        Some unpack \<Rightarrow> (case unpack val of Inl e \<Rightarrow> Inl e | Inr t \<Rightarrow> Inr (tlv_dict t))
      | None \<Rightarrow>
          Inr (VDict [(''type'', VInt (int type_code)),
                      (''value'', VStr (str_bytes (b2a_hex val)))]))"

text \<open>The two header fields of the sub-TLV at the front of a buffer.\<close>

definition sub_tlv_type :: "bytes \<Rightarrow> nat" where
  "sub_tlv_type bs = be_nat (take 2 bs)"

definition sub_tlv_length :: "bytes \<Rightarrow> nat" where
  "sub_tlv_length bs = be_nat (take 2 (drop 2 bs))"

text \<open>
  The buffer left after \<open>k\<close> iterations of the walk: each iteration drops the 4-byte
  header and the declared length.
\<close>

fun sub_tlvs_remainder :: "nat \<Rightarrow> bytes \<Rightarrow> bytes" where
  "sub_tlvs_remainder 0 bs = bs"
| "sub_tlvs_remainder (Suc k) bs = sub_tlvs_remainder k (drop (4 + sub_tlv_length bs) bs)"

text \<open>
  The buffer at the start of iteration \<open>k\<close> of the walk, when the walk gets that far:
  every earlier iteration has read a full header and its sub-TLV has been decoded
  without an exception.
\<close>

fun walk_state :: "registry \<Rightarrow> nat \<Rightarrow> bytes \<Rightarrow> bytes option" where
  "walk_state registered_tlvs 0 bs = Some bs"
| "walk_state registered_tlvs (Suc k) bs =
     (if length bs < 4 then None
      else
        (case sub_tlv_entry registered_tlvs (sub_tlv_type bs)
                (slice bs 4 (4 + sub_tlv_length bs)) of
           Inl e \<Rightarrow> None
         | Inr d \<Rightarrow> walk_state registered_tlvs k (drop (4 + sub_tlv_length bs) bs)))"

section \<open>Reference values for the AS_PATH codec\<close>

text \<open>The octets of one segment: the 2-byte header, then each ASN at the negotiated width.\<close>

definition encode_segment :: "bool \<Rightarrow> nat \<times> nat list \<Rightarrow> bytes" where
  "encode_segment asn4 seg =
     [of_nat (fst seg), of_nat (length (snd seg))] @
     concat (map (be_bytes (asn_width asn4)) (snd seg))"

section \<open>Basic facts about the byte helpers\<close>

lemma be_nat_2: "be_nat [a, b] = unat a * 256 + unat b"
  by (simp add: be_nat_def)

lemma be_nat_4:
  "be_nat [a, b, c, d] = unat a * 2 ^ 24 + unat b * 2 ^ 16 + unat c * 2 ^ 8 + unat d"
  by (simp add: be_nat_def)

lemma be_nat_snoc: "be_nat (bs @ [b]) = be_nat bs * 256 + unat b"
  by (simp add: be_nat_def)

lemma take2_conv: "2 \<le> length data \<Longrightarrow> take 2 data = [data ! 0, data ! 1]"
  by (cases data; cases "tl data") auto

lemma map_upt_Suc_shift: "map f [0..<Suc n] = f 0 # map (\<lambda>k. f (Suc k)) [0..<n]"
  by (simp only: map_upt_Suc)

lemma for_loop_append:
  "for_loop (xs @ ys) body s =
     (case for_loop xs body s of Inl e \<Rightarrow> Inl e | Inr s' \<Rightarrow> for_loop ys body s')"
  by (induction xs arbitrary: s) (auto split: sum.splits)

lemma for_loop_all_ok:
  "(\<And>i s. i \<in> set xs \<Longrightarrow> body i s = Inr (s @ [g i])) \<Longrightarrow>
   for_loop xs body s = Inr (s @ map g xs)"
  by (induction xs arbitrary: s) auto

section \<open>MultiTopologyIdentifier: the loop on even and odd lengths\<close>

lemma mt_id_loop_even:
  "length data = 2 * n \<Longrightarrow>
   mt_id_loop data acc =
     Inr (acc @ map (\<lambda>k. unat (data ! (2 * k)) * 256 + unat (data ! (2 * k + 1))) [0..<n])"
proof (induction n arbitrary: data acc)
  case 0
  then show ?case by (simp add: mt_id_loop.simps)
next
  case (Suc n)
  from Suc.prems have ne: "data \<noteq> []" and len2: "2 \<le> length data"
    and rest: "length (drop 2 data) = 2 * n" by auto
  have hd: "struct_unpack_H (take 2 data) = Inr (unat (data ! 0) * 256 + unat (data ! 1))"
    using len2 by (simp add: struct_unpack_H_def take2_conv be_nat_2)
  have idx: "\<And>k. k < n \<Longrightarrow> drop 2 data ! (2 * k) = data ! (2 * Suc k) \<and>
      drop 2 data ! (2 * k + 1) = data ! (2 * Suc k + 1)"
    using Suc.prems by (simp add: add.commute)
  have "mt_id_loop data acc =
      mt_id_loop (drop 2 data) (acc @ [unat (data ! 0) * 256 + unat (data ! 1)])"
    using ne hd by (subst mt_id_loop.simps) simp
  also have "\<dots> = Inr ((acc @ [unat (data ! 0) * 256 + unat (data ! 1)]) @
      map (\<lambda>k. unat (drop 2 data ! (2 * k)) * 256 + unat (drop 2 data ! (2 * k + 1))) [0..<n])"
    by (rule Suc.IH [OF rest])
  also have "map (\<lambda>k. unat (drop 2 data ! (2 * k)) * 256 + unat (drop 2 data ! (2 * k + 1))) [0..<n]
      = map (\<lambda>k. unat (data ! (2 * Suc k)) * 256 + unat (data ! (2 * Suc k + 1))) [0..<n]"
    using idx by (intro map_cong) auto
  finally show ?case
    by (simp only: map_upt_Suc_shift [where n = n]) simp
qed

lemma mt_id_loop_odd:
  "length data = 2 * n + 1 \<Longrightarrow> mt_id_loop data acc = Inl StructError"
proof (induction n arbitrary: data acc)
  case 0
  then show ?case
    by (subst mt_id_loop.simps) (auto simp: struct_unpack_H_def)
next
  case (Suc n)
  from Suc.prems have ne: "data \<noteq> []" and len2: "2 \<le> length data"
    and rest: "length (drop 2 data) = 2 * n + 1" by auto
  have hd: "struct_unpack_H (take 2 data) = Inr (be_nat (take 2 data))"
    using len2 by (simp add: struct_unpack_H_def)
  have "mt_id_loop data acc = mt_id_loop (drop 2 data) (acc @ [be_nat (take 2 data)])"
    using ne hd by (subst mt_id_loop.simps) simp
  then show ?case using Suc.IH [OF rest] by simp
qed

lemma MultiTopologyIdentifier_even:
  "length data = 2 * n \<Longrightarrow>
   MultiTopologyIdentifier_unpack data =
     Inr \<lparr>tlv_type = 263, tlv_type_str = ''mt_id'',
          tlv_value = VList (map (\<lambda>k. VInt (int (u16_at data k))) [0..<n])\<rparr>"
  by (simp add: MultiTopologyIdentifier_unpack_def mt_id_loop_even [where acc = "[]"]
      u16_at_def comp_def)

lemma MultiTopologyIdentifier_odd:
  "odd (length data) \<Longrightarrow> MultiTopologyIdentifier_unpack data = Inl StructError"
proof -
  assume "odd (length data)"
  then obtain n where "length data = 2 * n + 1" by (auto elim: oddE)
  then show ?thesis
    by (simp add: MultiTopologyIdentifier_unpack_def mt_id_loop_odd [where acc = "[]"])
qed

section \<open>The admin-group and SRLG loops\<close>

lemma py_range_4: "py_range 0 n 4 = map (\<lambda>k. k * 4) [0..<(n + 3) div 4]"
  by (simp add: py_range_def add.commute)

lemma take4_drop:
  "i + 4 \<le> length data \<Longrightarrow>
   take 4 (drop i data) = [data ! i, data ! (i + 1), data ! (i + 2), data ! (i + 3)]"
proof -
  assume len: "i + 4 \<le> length data"
  have "drop i data = data ! i # drop (Suc i) data"
    using len by (simp add: Cons_nth_drop_Suc)
  also have "drop (Suc i) data = data ! (i + 1) # drop (Suc (Suc i)) data"
    using len by (simp add: Cons_nth_drop_Suc)
  also have "drop (Suc (Suc i)) data = data ! (i + 2) # drop (Suc (Suc (Suc i))) data"
    using len by (simp add: Cons_nth_drop_Suc)
  also have "drop (Suc (Suc (Suc i))) data = data ! (i + 3) # drop (i + 4) data"
    using len Cons_nth_drop_Suc [of "i + 3" data] by (simp add: numeral_eq_Suc)
  finally show ?thesis by simp
qed

lemma u32_body_ok:
  "4 * k + 4 \<le> length data \<Longrightarrow> u32_body data (k * 4) acc = Inr (acc @ [u32_at data k])"
  by (simp add: u32_body_def slice_def struct_unpack_I_def take4_drop be_nat_4 u32_at_def
      mult.commute)

lemma u32_loop_prefix:
  "4 * n \<le> length data \<Longrightarrow>
   for_loop (map (\<lambda>k. k * 4) [0..<n]) (u32_body data) acc = Inr (acc @ map (u32_at data) [0..<n])"
proof -
  assume len: "4 * n \<le> length data"
  have "for_loop (map (\<lambda>k. k * 4) [0..<n]) (\<lambda>i. u32_body data i) acc
      = Inr (acc @ map (\<lambda>i. u32_at data (i div 4)) (map (\<lambda>k. k * 4) [0..<n]))"
  proof (rule for_loop_all_ok)
    fix i s assume "i \<in> set (map (\<lambda>k. k * 4) [0..<n])"
    then obtain k where k: "k < n" "i = k * 4" by auto
    with len have "4 * k + 4 \<le> length data" by simp
    from u32_body_ok [OF this] k show "u32_body data i s = Inr (s @ [u32_at data (i div 4)])"
      by simp
  qed
  then show ?thesis by (simp add: comp_def)
qed

lemma u32_loop_mult4:
  "length data = 4 * n \<Longrightarrow>
   for_loop (py_range 0 (length data) 4) (u32_body data) [] = Inr (map (u32_at data) [0..<n])"
  using u32_loop_prefix [of n data "[]"] by (simp add: py_range_4)

lemma u32_loop_not_mult4:
  assumes "length data mod 4 \<noteq> 0"
  shows "for_loop (py_range 0 (length data) 4) (u32_body data) [] = Inl StructError"
proof -
  define n where "n = length data div 4"
  define r where "r = length data mod 4"
  have len: "length data = 4 * n + r" and r: "0 < r" "r < 4"
    using assms by (auto simp: n_def r_def)
  have cnt: "(length data + 3) div 4 = Suc n" using len r by simp
  have pre: "for_loop (map (\<lambda>k. k * 4) [0..<n]) (u32_body data) [] = Inr (map (u32_at data) [0..<n])"
    using u32_loop_prefix [of n data "[]"] len by simp
  have last: "u32_body data (n * 4) s = Inl StructError" for s
    using len r by (simp add: u32_body_def slice_def struct_unpack_I_def mult.commute)
  have "py_range 0 (length data) 4 = map (\<lambda>k. k * 4) [0..<n] @ [n * 4]"
    by (simp add: py_range_4 cnt)
  then show ?thesis
    by (simp add: for_loop_append pre last)
qed

lemma FlexAlgoExcludeAdminGroup_loop:
  "FlexAlgoExcludeAdminGroup_unpack data =
     (case for_loop (py_range 0 (length data) 4) (u32_body data) [] of
        Inl e \<Rightarrow> Inl e
      | Inr vs \<Rightarrow> Inr \<lparr>tlv_type = 1040, tlv_type_str = ''flex_algo_excl_admin_group'',
                       tlv_value = VList (map (\<lambda>v. VInt (int v)) vs)\<rparr>)"
  by (simp add: FlexAlgoExcludeAdminGroup_unpack_def u32_body_def)

lemma FlexAlgoIncludeAnyAdminGroup_loop:
  "FlexAlgoIncludeAnyAdminGroup_unpack data =
     (case for_loop (py_range 0 (length data) 4) (u32_body data) [] of
        Inl e \<Rightarrow> Inl e
      | Inr vs \<Rightarrow> Inr \<lparr>tlv_type = 1041, tlv_type_str = ''flex_algo_incl_any_admin_group'',
                       tlv_value = VList (map (\<lambda>v. VInt (int v)) vs)\<rparr>)"
  by (simp add: FlexAlgoIncludeAnyAdminGroup_unpack_def u32_body_def)

lemma FlexAlgoIncludeAllAdminGroup_loop:
  "FlexAlgoIncludeAllAdminGroup_unpack data =
     (case for_loop (py_range 0 (length data) 4) (u32_body data) [] of
        Inl e \<Rightarrow> Inl e
      | Inr vs \<Rightarrow> Inr \<lparr>tlv_type = 1042, tlv_type_str = ''flex_algo_incl_all_admin_group'',
                       tlv_value = VList (map (\<lambda>v. VInt (int v)) vs)\<rparr>)"
  by (simp add: FlexAlgoIncludeAllAdminGroup_unpack_def u32_body_def)

lemma FlexAlgoExcludeSRLG_loop:
  "FlexAlgoExcludeSRLG_unpack data =
     (case for_loop (py_range 0 (length data) 4) (u32_body data) [] of
        Inl e \<Rightarrow> Inl e
      | Inr vs \<Rightarrow> Inr \<lparr>tlv_type = 1044, tlv_type_str = ''flex_algo_excl_srlg'',
                       tlv_value = VList (map (\<lambda>v. VInt (int v)) vs)\<rparr>)"
  by (simp add: FlexAlgoExcludeSRLG_unpack_def u32_body_def)

lemmas u32_decoders_loop =
  FlexAlgoExcludeAdminGroup_loop FlexAlgoIncludeAnyAdminGroup_loop
  FlexAlgoIncludeAllAdminGroup_loop FlexAlgoExcludeSRLG_loop

lemma flags_unpack_2:
  "2 \<le> length data \<Longrightarrow>
   struct_unpack_H (take 2 data) = Inr (unat (data ! 0) * 256 + unat (data ! 1))"
  by (simp add: struct_unpack_H_def take2_conv be_nat_2)

lemma m_bit:
  "(unat (a::byte) * 256 + unat (b::byte)) div 2 ^ 15 = (if 0x80 \<le> a then 1 else 0)"
proof -
  have "unat b < 256" "unat a < 256"
    using unsigned_less [of a, where 'a = nat] unsigned_less [of b, where 'a = nat] by auto
  then show ?thesis
    by (auto simp: word_le_nat_alt)
qed

lemma upt_0_2: "[0..<2] = [0, 1]"
  by (simp add: upt_rec)

lemma upt_0_3: "[0..<3] = [0, 1, 2]"
  by (simp add: upt_rec)

section \<open>Claims about the list-valued and flag decoders\<close>

text \<open>
  C6. \<^verbatim>\<open>MultiTopologyIdentifier.unpack\<close> maps the empty buffer to the empty sequence;
  a buffer of even length \<open>2 * n\<close> to the \<open>n\<close> raw big-endian 16-bit values in order,
  the four reserved top bits left in place (bytes ff ff give 65535); and it raises on
  every buffer of odd length instead of dropping the last byte.
\<close>

theorem MultiTopologyIdentifier_unpack_spec:
  "MultiTopologyIdentifier_unpack [] =
     Inr \<lparr>tlv_type = 263, tlv_type_str = ''mt_id'', tlv_value = VList []\<rparr> \<and>
   (length data = 2 * n \<longrightarrow>
      MultiTopologyIdentifier_unpack data =
        Inr \<lparr>tlv_type = 263, tlv_type_str = ''mt_id'',
             tlv_value = VList (map (\<lambda>k. VInt (int (u16_at data k))) [0..<n])\<rparr>) \<and>
   (odd (length data) \<longrightarrow> MultiTopologyIdentifier_unpack data = Inl StructError) \<and>
   MultiTopologyIdentifier_unpack [0xff, 0xff] =
     Inr \<lparr>tlv_type = 263, tlv_type_str = ''mt_id'', tlv_value = VList [VInt 65535]\<rparr>"
proof (intro conjI impI)
  show "MultiTopologyIdentifier_unpack [] =
     Inr \<lparr>tlv_type = 263, tlv_type_str = ''mt_id'', tlv_value = VList []\<rparr>"
    using MultiTopologyIdentifier_even [of "[]" 0] by simp
  show "MultiTopologyIdentifier_unpack [0xff, 0xff] =
     Inr \<lparr>tlv_type = 263, tlv_type_str = ''mt_id'', tlv_value = VList [VInt 65535]\<rparr>"
    using MultiTopologyIdentifier_even [of "[0xff, 0xff]" 1] by (simp add: u16_at_def)
qed (simp_all add: MultiTopologyIdentifier_even MultiTopologyIdentifier_odd)

theorem MultiTopologyIdentifier_unpack_spec_witness:
  "MultiTopologyIdentifier_unpack [0x00, 0x02, 0xf0, 0x03] =
     Inr \<lparr>tlv_type = 263, tlv_type_str = ''mt_id'', tlv_value = VList [VInt 2, VInt 61443]\<rparr> \<and>
   MultiTopologyIdentifier_unpack [0x00, 0x02, 0x00] = Inl StructError"
  using MultiTopologyIdentifier_unpack_spec [of "[0x00, 0x02, 0xf0, 0x03]" 2] MultiTopologyIdentifier_unpack_spec [of "[0x00, 0x02, 0x00]" 0]
  by (simp add: u16_at_def upt_0_2)

text \<open>
  C5. On a buffer whose length is \<open>4 * n\<close> each of the four decoders
  \<^verbatim>\<open>FlexAlgoExcludeAdminGroup\<close>, \<^verbatim>\<open>FlexAlgoIncludeAnyAdminGroup\<close>,
  \<^verbatim>\<open>FlexAlgoIncludeAllAdminGroup\<close> and \<^verbatim>\<open>FlexAlgoExcludeSRLG\<close> returns the \<open>n\<close>
  big-endian 32-bit values of the chunks in order; on a buffer whose length is not a
  multiple of 4 each of them raises \<^verbatim>\<open>struct.error\<close> on the trailing partial chunk.
  The instance that follows is the literal 00000064 0000012c 000001f4, decoded to
  100, 300, 500.
\<close>

theorem flex_algo_u32_lists_spec:
  "(length data = 4 * n \<longrightarrow>
      FlexAlgoExcludeAdminGroup_unpack data =
        Inr \<lparr>tlv_type = 1040, tlv_type_str = ''flex_algo_excl_admin_group'',
             tlv_value = VList (map (\<lambda>k. VInt (int (u32_at data k))) [0..<n])\<rparr> \<and>
      FlexAlgoIncludeAnyAdminGroup_unpack data =
        Inr \<lparr>tlv_type = 1041, tlv_type_str = ''flex_algo_incl_any_admin_group'',
             tlv_value = VList (map (\<lambda>k. VInt (int (u32_at data k))) [0..<n])\<rparr> \<and>
      FlexAlgoIncludeAllAdminGroup_unpack data =
        Inr \<lparr>tlv_type = 1042, tlv_type_str = ''flex_algo_incl_all_admin_group'',
             tlv_value = VList (map (\<lambda>k. VInt (int (u32_at data k))) [0..<n])\<rparr> \<and>
      FlexAlgoExcludeSRLG_unpack data =
        Inr \<lparr>tlv_type = 1044, tlv_type_str = ''flex_algo_excl_srlg'',
             tlv_value = VList (map (\<lambda>k. VInt (int (u32_at data k))) [0..<n])\<rparr>) \<and>
   (length data mod 4 \<noteq> 0 \<longrightarrow>
      FlexAlgoExcludeAdminGroup_unpack data = Inl StructError \<and>
      FlexAlgoIncludeAnyAdminGroup_unpack data = Inl StructError \<and>
      FlexAlgoIncludeAllAdminGroup_unpack data = Inl StructError \<and>
      FlexAlgoExcludeSRLG_unpack data = Inl StructError)"
proof (intro conjI impI)
  assume len: "length data = 4 * n"
  note ok = u32_loop_mult4 [OF len]
  show "FlexAlgoExcludeAdminGroup_unpack data =
        Inr \<lparr>tlv_type = 1040, tlv_type_str = ''flex_algo_excl_admin_group'',
             tlv_value = VList (map (\<lambda>k. VInt (int (u32_at data k))) [0..<n])\<rparr>"
    by (simp add: FlexAlgoExcludeAdminGroup_loop ok comp_def)
  show "FlexAlgoIncludeAnyAdminGroup_unpack data =
        Inr \<lparr>tlv_type = 1041, tlv_type_str = ''flex_algo_incl_any_admin_group'',
             tlv_value = VList (map (\<lambda>k. VInt (int (u32_at data k))) [0..<n])\<rparr>"
    by (simp add: FlexAlgoIncludeAnyAdminGroup_loop ok comp_def)
  show "FlexAlgoIncludeAllAdminGroup_unpack data =
        Inr \<lparr>tlv_type = 1042, tlv_type_str = ''flex_algo_incl_all_admin_group'',
             tlv_value = VList (map (\<lambda>k. VInt (int (u32_at data k))) [0..<n])\<rparr>"
    by (simp add: FlexAlgoIncludeAllAdminGroup_loop ok comp_def)
  show "FlexAlgoExcludeSRLG_unpack data =
        Inr \<lparr>tlv_type = 1044, tlv_type_str = ''flex_algo_excl_srlg'',
             tlv_value = VList (map (\<lambda>k. VInt (int (u32_at data k))) [0..<n])\<rparr>"
    by (simp add: FlexAlgoExcludeSRLG_loop ok comp_def)
next
  assume "length data mod 4 \<noteq> 0"
  note bad = u32_loop_not_mult4 [OF this]
  show "FlexAlgoExcludeAdminGroup_unpack data = Inl StructError"
    by (simp add: FlexAlgoExcludeAdminGroup_loop bad)
  show "FlexAlgoIncludeAnyAdminGroup_unpack data = Inl StructError"
    by (simp add: FlexAlgoIncludeAnyAdminGroup_loop bad)
  show "FlexAlgoIncludeAllAdminGroup_unpack data = Inl StructError"
    by (simp add: FlexAlgoIncludeAllAdminGroup_loop bad)
  show "FlexAlgoExcludeSRLG_unpack data = Inl StructError"
    by (simp add: FlexAlgoExcludeSRLG_loop bad)
qed

theorem flex_algo_u32_lists_spec_witness:
  "FlexAlgoExcludeSRLG_unpack [0x00, 0x00, 0x00, 0x64, 0x00, 0x00, 0x01, 0x2c, 0x00, 0x00, 0x01, 0xf4] =
     Inr \<lparr>tlv_type = 1044, tlv_type_str = ''flex_algo_excl_srlg'',
          tlv_value = VList [VInt 100, VInt 300, VInt 500]\<rparr> \<and>
   FlexAlgoExcludeAdminGroup_unpack [0x00, 0x00, 0x00, 0x64, 0x00, 0x00, 0x01] = Inl StructError"
  using flex_algo_u32_lists_spec [of "[0x00, 0x00, 0x00, 0x64, 0x00, 0x00, 0x01, 0x2c, 0x00, 0x00, 0x01, 0xf4]" 3]
    flex_algo_u32_lists_spec [of "[0x00, 0x00, 0x00, 0x64, 0x00, 0x00, 0x01]" 0]
  by (simp add: u32_at_def upt_0_3)

text \<open>
  C9. On every input of at least two bytes \<^verbatim>\<open>FlexAlgoDefinitionFlags.unpack\<close> reads the
  first two bytes as a big-endian 16-bit value and returns \<^verbatim>\<open>{'M': flags >> 15}\<close>: the
  result is the top bit of the first byte, and neither the 15 reserved bits nor any byte
  after the second changes it. Bytes 80 00 give M = 1 and bytes 00 00 give M = 0.
\<close>

theorem FlexAlgoDefinitionFlags_unpack_spec:
  "(2 \<le> length data \<longrightarrow>
      FlexAlgoDefinitionFlags_unpack data =
        Inr \<lparr>tlv_type = 1043, tlv_type_str = ''flex_algo_defn_flags'',
             tlv_value = VDict [(''M'', VInt (int ((unat (data ! 0) * 256 + unat (data ! 1)) div 2 ^ 15)))]\<rparr> \<and>
      FlexAlgoDefinitionFlags_unpack data = FlexAlgoDefinitionFlags_unpack (take 2 data) \<and>
      FlexAlgoDefinitionFlags_unpack data =
        Inr \<lparr>tlv_type = 1043, tlv_type_str = ''flex_algo_defn_flags'',
             tlv_value = VDict [(''M'', VInt (if 0x80 \<le> data ! 0 then 1 else 0))]\<rparr>) \<and>
   FlexAlgoDefinitionFlags_unpack [0x80, 0x00] =
     Inr \<lparr>tlv_type = 1043, tlv_type_str = ''flex_algo_defn_flags'', tlv_value = VDict [(''M'', VInt 1)]\<rparr> \<and>
   FlexAlgoDefinitionFlags_unpack [0x00, 0x00] =
     Inr \<lparr>tlv_type = 1043, tlv_type_str = ''flex_algo_defn_flags'', tlv_value = VDict [(''M'', VInt 0)]\<rparr>"
proof (intro conjI impI)
  assume len: "2 \<le> length data"
  show a: "FlexAlgoDefinitionFlags_unpack data =
        Inr \<lparr>tlv_type = 1043, tlv_type_str = ''flex_algo_defn_flags'',
             tlv_value = VDict [(''M'', VInt (int ((unat (data ! 0) * 256 + unat (data ! 1)) div 2 ^ 15)))]\<rparr>"
    using len by (simp add: FlexAlgoDefinitionFlags_unpack_def flags_unpack_2)
  show "FlexAlgoDefinitionFlags_unpack data = FlexAlgoDefinitionFlags_unpack (take 2 data)"
    by (simp add: FlexAlgoDefinitionFlags_unpack_def)
  show "FlexAlgoDefinitionFlags_unpack data =
        Inr \<lparr>tlv_type = 1043, tlv_type_str = ''flex_algo_defn_flags'',
             tlv_value = VDict [(''M'', VInt (if 0x80 \<le> data ! 0 then 1 else 0))]\<rparr>"
    unfolding a m_bit by simp
next
  show "FlexAlgoDefinitionFlags_unpack [0x80, 0x00] =
     Inr \<lparr>tlv_type = 1043, tlv_type_str = ''flex_algo_defn_flags'', tlv_value = VDict [(''M'', VInt 1)]\<rparr>"
    by (simp add: FlexAlgoDefinitionFlags_unpack_def struct_unpack_H_def be_nat_2)
  show "FlexAlgoDefinitionFlags_unpack [0x00, 0x00] =
     Inr \<lparr>tlv_type = 1043, tlv_type_str = ''flex_algo_defn_flags'', tlv_value = VDict [(''M'', VInt 0)]\<rparr>"
    by (simp add: FlexAlgoDefinitionFlags_unpack_def struct_unpack_H_def be_nat_2)
qed

theorem FlexAlgoDefinitionFlags_unpack_spec_witness:
  "2 \<le> length [0xc1, 0x23, 0x45 :: byte] \<and>
   FlexAlgoDefinitionFlags_unpack [0xc1, 0x23, 0x45] =
     Inr \<lparr>tlv_type = 1043, tlv_type_str = ''flex_algo_defn_flags'',
          tlv_value = VDict [(''M'', VInt 1)]\<rparr>"
proof -
  have len: "2 \<le> length [0xc1, 0x23, 0x45 :: byte]" by simp
  from FlexAlgoDefinitionFlags_unpack_spec [of "[0xc1, 0x23, 0x45]"] len
  have "FlexAlgoDefinitionFlags_unpack [0xc1, 0x23, 0x45] =
        Inr \<lparr>tlv_type = 1043, tlv_type_str = ''flex_algo_defn_flags'',
             tlv_value = VDict [(''M'', VInt (if 0x80 \<le> [0xc1, 0x23, 0x45 :: byte] ! 0 then 1 else 0))]\<rparr>"
    by blast
  then show ?thesis by simp
qed

text \<open>
  C10. The four list decoders are the same function of the buffer: each fails exactly
  when \<^verbatim>\<open>FlexAlgoExcludeAdminGroup.unpack\<close> fails, with the same exception, and on
  success returns the same list of values; the instances differ in \<^verbatim>\<open>TYPE\<close> and
  \<^verbatim>\<open>TYPE_STR\<close> only.
\<close>

theorem flex_algo_u32_decoders_equal:
  "FlexAlgoIncludeAnyAdminGroup_unpack data =
     map_sum id (\<lambda>t. t\<lparr>tlv_type := 1041, tlv_type_str := ''flex_algo_incl_any_admin_group''\<rparr>)
       (FlexAlgoExcludeAdminGroup_unpack data) \<and>
   FlexAlgoIncludeAllAdminGroup_unpack data =
     map_sum id (\<lambda>t. t\<lparr>tlv_type := 1042, tlv_type_str := ''flex_algo_incl_all_admin_group''\<rparr>)
       (FlexAlgoExcludeAdminGroup_unpack data) \<and>
   FlexAlgoExcludeSRLG_unpack data =
     map_sum id (\<lambda>t. t\<lparr>tlv_type := 1044, tlv_type_str := ''flex_algo_excl_srlg''\<rparr>)
       (FlexAlgoExcludeAdminGroup_unpack data) \<and>
   map_sum id tlv_value (FlexAlgoIncludeAnyAdminGroup_unpack data) =
     map_sum id tlv_value (FlexAlgoExcludeAdminGroup_unpack data) \<and>
   map_sum id tlv_value (FlexAlgoIncludeAllAdminGroup_unpack data) =
     map_sum id tlv_value (FlexAlgoExcludeAdminGroup_unpack data) \<and>
   map_sum id tlv_value (FlexAlgoExcludeSRLG_unpack data) =
     map_sum id tlv_value (FlexAlgoExcludeAdminGroup_unpack data)"
  by (simp add: FlexAlgoExcludeAdminGroup_unpack_def FlexAlgoIncludeAnyAdminGroup_unpack_def
      FlexAlgoIncludeAllAdminGroup_unpack_def FlexAlgoExcludeSRLG_unpack_def split: sum.splits)

section \<open>Hexadecimal text of a big-endian value\<close>

lemma hex_fixed_0: "hex_fixed w 0 = replicate w CHR ''0''"
  by (induction w) (simp_all add: hex_digit_def replicate_append_same)

lemma hex_of_nat_small: "n < 16 \<Longrightarrow> hex_of_nat n = [hex_digit n]"
  by (subst hex_of_nat.simps) simp

lemma hex_of_nat_big: "16 \<le> n \<Longrightarrow> hex_of_nat n = hex_of_nat (n div 16) @ [hex_digit (n mod 16)]"
  by (subst hex_of_nat.simps) simp

lemma length_hex_of_nat: "n < 16 ^ w \<Longrightarrow> 0 < w \<Longrightarrow> length (hex_of_nat n) \<le> w"
proof (induction w arbitrary: n)
  case 0 then show ?case by simp
next
  case (Suc w)
  show ?case
  proof (cases "n < 16")
    case True then show ?thesis by (simp add: hex_of_nat_small)
  next
    case False
    with Suc.prems have w: "0 < w" by (cases w) auto
    from Suc.prems have "n div 16 < 16 ^ w" by (simp add: less_mult_imp_div_less)
    from Suc.IH [OF this w] False show ?thesis by (simp add: hex_of_nat_big)
  qed
qed

lemma format_0x_fixed: "n < 16 ^ w \<Longrightarrow> 0 < w \<Longrightarrow> format_0x w n = hex_fixed w n"
proof (induction w arbitrary: n)
  case 0 then show ?case by simp
next
  case (Suc w)
  show ?case
  proof (cases "n < 16")
    case True
    then show ?thesis by (simp add: format_0x_def hex_of_nat_small hex_fixed_0)
  next
    case False
    with Suc.prems have w: "0 < w" by (cases w) auto
    from Suc.prems have small: "n div 16 < 16 ^ w" by (simp add: less_mult_imp_div_less)
    have len: "length (hex_of_nat (n div 16)) \<le> w" by (rule length_hex_of_nat [OF small w])
    have "format_0x (Suc w) n = format_0x w (n div 16) @ [hex_digit (n mod 16)]"
      using False len by (simp add: format_0x_def hex_of_nat_big Suc_diff_le)
    then show ?thesis using Suc.IH [OF small w] by simp
  qed
qed

lemma unat_byte_less: "unat (b :: byte) < 256"
  using unsigned_less [of b, where 'a = nat] by simp

lemma be_nat_less: "be_nat bs < 256 ^ length bs"
proof (induction bs rule: rev_induct)
  case Nil then show ?case by (simp add: be_nat_def)
next
  case (snoc b bs)
  have "be_nat bs * 256 + unat b < (be_nat bs + 1) * 256" using unat_byte_less [of b] by simp
  also have "\<dots> \<le> 256 ^ length bs * 256" using snoc by (simp add: Suc_leI del: mult_Suc)
  finally show ?case by (simp add: be_nat_snoc)
qed

lemma b2a_hex_snoc:
  "b2a_hex (bs @ [b]) = b2a_hex bs @ [hex_digit (unat b div 16), hex_digit (unat b mod 16)]"
  by (simp add: b2a_hex_def)

lemma hex_fixed_be_nat: "hex_fixed (2 * length bs) (be_nat bs) = b2a_hex bs"
proof (induction bs rule: rev_induct)
  case Nil then show ?case by (simp add: be_nat_def b2a_hex_def)
next
  case (snoc b bs)
  let ?N = "be_nat bs * 256 + unat b"
  have b: "unat b < 256" by (rule unat_byte_less)
  have N: "?N = unat b + 16 * (16 * be_nat bs)" by simp
  have q: "?N div 16 = unat b div 16 + 16 * be_nat bs"
    unfolding N by (simp only: div_mult_self2 [of 16 "unat b" "16 * be_nat bs"]) simp?
  have small: "unat b div 16 < 16" using b by simp
  have d0: "?N mod 16 = unat b mod 16"
    unfolding N by (simp only: mod_mult_self2)
  have d1: "?N div 16 mod 16 = unat b div 16"
    unfolding q using small by (simp only: mod_mult_self2 mod_less)
  have d2: "?N div 16 div 16 = be_nat bs"
    unfolding q using small by (simp only: div_mult_self2 [of 16 "unat b div 16" "be_nat bs"]) simp?
  show ?case
    by (simp add: be_nat_snoc b2a_hex_snoc d0 d1 d2 snoc.IH [symmetric])
qed

lemma format_0x_be_nat:
  "0 < length bs \<Longrightarrow> format_0x (2 * length bs) (be_nat bs) = b2a_hex bs"
proof -
  assume pos: "0 < length bs"
  have "be_nat bs < 16 ^ (2 * length bs)"
    using be_nat_less [of bs] by (simp add: power_mult)
  from format_0x_fixed [OF this] pos show ?thesis by (simp add: hex_fixed_be_nat)
qed

lemma hex_fixed_8: "length bs = 4 \<Longrightarrow> hex_fixed 8 (be_nat bs) = b2a_hex bs"
  using hex_fixed_be_nat [of bs] by simp

lemma hex_fixed_16: "length bs = 8 \<Longrightarrow> hex_fixed 16 (be_nat bs) = b2a_hex bs"
  using hex_fixed_be_nat [of bs] by simp

lemma format_0x_8: "length bs = 4 \<Longrightarrow> format_0x 8 (be_nat bs) = hex_fixed 8 (be_nat bs)"
  using format_0x_be_nat [of bs] by (simp add: hex_fixed_8)

lemma format_0x_16: "length bs = 8 \<Longrightarrow> format_0x 16 (be_nat bs) = hex_fixed 16 (be_nat bs)"
  using format_0x_be_nat [of bs] by (simp add: hex_fixed_16)

lemma mask_block_char:
  "mask_block data off len =
     (if (len = 4 \<or> len = 8) \<and> length data < off + len then Inl StructError
      else Inr (mask_value len (slice data off (off + len)), off + len))"
  by (auto simp: mask_block_def mask_value_def Let_def struct_unpack_I_def struct_unpack_Q_def
      slice_def format_0x_8 format_0x_16)

lemma AppSpecLinkAttr_unpack_blocks:
  "AppSpecLinkAttr_unpack reg data =
     (if length data < 2 then Inl IndexError
      else
        (case mask_block data 4 (unat (data ! 0)) of
           Inl e \<Rightarrow> Inl e
         | Inr (sabm, offset) \<Rightarrow>
             (case mask_block data offset (unat (data ! 1)) of
                Inl e \<Rightarrow> Inl e
              | Inr (udabm, offset) \<Rightarrow>
                  (case asla_sub_tlvs_loop reg (drop offset data) [] of
                     Inl e \<Rightarrow> Inl e
                   | Inr sub_tlvs \<Rightarrow>
                       Inr \<lparr>tlv_type = 1122, tlv_type_str = ''ASLA'',
                            tlv_value =
                              VDict [(''sabm'', VDict [(''len'', VInt (int (unat (data ! 0)))), (''value'', sabm)]),
                                     (''udabm'', VDict [(''len'', VInt (int (unat (data ! 1)))), (''value'', udabm)]),
                                     (''sub_tlvs'', VList sub_tlvs)]\<rparr>))))"
  unfolding AppSpecLinkAttr_unpack_def mask_block_def Let_def by (rule refl)

section \<open>The sub-TLV walk\<close>

lemma asla_loop_nil: "asla_sub_tlvs_loop reg [] acc = Inr acc"
  by (subst asla_sub_tlvs_loop.simps) simp

lemma asla_loop_short:
  "bs \<noteq> [] \<Longrightarrow> length bs < 4 \<Longrightarrow> asla_sub_tlvs_loop reg bs acc = Inl StructError"
  by (subst asla_sub_tlvs_loop.simps) (simp add: struct_unpack_HH_def)

lemma unpack_HH_4:
  "4 \<le> length bs \<Longrightarrow> struct_unpack_HH (take 4 bs) = Inr (sub_tlv_type bs, sub_tlv_length bs)"
  by (simp add: struct_unpack_HH_def sub_tlv_type_def sub_tlv_length_def drop_take)

lemma asla_loop_step:
  "4 \<le> length bs \<Longrightarrow>
   asla_sub_tlvs_loop reg bs acc =
     (case sub_tlv_entry reg (sub_tlv_type bs) (slice bs 4 (4 + sub_tlv_length bs)) of
        Inl e \<Rightarrow> Inl e
      | Inr d \<Rightarrow> asla_sub_tlvs_loop reg (drop (4 + sub_tlv_length bs) bs) (acc @ [d]))"
proof -
  assume len: "4 \<le> length bs"
  then have ne: "bs \<noteq> []" by auto
  show ?thesis
    by (subst asla_sub_tlvs_loop.simps)
      (simp add: ne unpack_HH_4 [OF len] sub_tlv_entry_def split: option.splits sum.splits)
qed

lemma fad_loop_eq_asla_loop:
  "fad_sub_tlvs_loop reg bs acc = asla_sub_tlvs_loop reg bs acc"
proof (induction "length bs" arbitrary: bs acc rule: less_induct)
  case less
  show ?case
  proof (cases "bs = []")
    case True
    then show ?thesis
      by (subst fad_sub_tlvs_loop.simps, subst asla_sub_tlvs_loop.simps) simp
  next
    case False
    then have "length (drop (4 + n) bs) < length bs" for n by simp
    note IH = less [OF this]
    show ?thesis
      by (subst fad_sub_tlvs_loop.simps, subst asla_sub_tlvs_loop.simps)
        (simp add: IH split: sum.splits option.splits prod.splits)
  qed
qed

lemma remainder_nil: "sub_tlvs_remainder k [] = []"
  by (induction k) simp_all

lemma remainder_short: "length bs < 4 \<Longrightarrow> sub_tlvs_remainder (Suc k) bs = []"
  by (simp add: remainder_nil)

lemma asla_loop_truncated_header:
  "sub_tlvs_remainder k bs \<noteq> [] \<Longrightarrow> length (sub_tlvs_remainder k bs) < 4 \<Longrightarrow>
   \<exists>e. asla_sub_tlvs_loop reg bs acc = Inl e"
proof (induction k arbitrary: bs acc)
  case 0
  then show ?case by (simp add: asla_loop_short)
next
  case (Suc k)
  show ?case
  proof (cases "length bs < 4")
    case True
    with Suc.prems show ?thesis by (simp add: remainder_nil)
  next
    case False
    then have len: "4 \<le> length bs" by simp
    show ?thesis
    proof (cases "sub_tlv_entry reg (sub_tlv_type bs) (slice bs 4 (4 + sub_tlv_length bs))")
      case (Inl e)
      then show ?thesis by (simp add: asla_loop_step [OF len])
    next
      case (Inr d)
      from Suc.prems Suc.IH [of "drop (4 + sub_tlv_length bs) bs" "acc @ [d]"]
      show ?thesis by (simp add: asla_loop_step [OF len] Inr)
    qed
  qed
qed

lemma asla_loop_overlong:
  "4 \<le> length bs \<Longrightarrow> length bs - 4 \<le> sub_tlv_length bs \<Longrightarrow>
   asla_sub_tlvs_loop reg bs acc =
     (case sub_tlv_entry reg (sub_tlv_type bs) (drop 4 bs) of
        Inl e \<Rightarrow> Inl e
      | Inr d \<Rightarrow> Inr (acc @ [d]))"
proof -
  assume len: "4 \<le> length bs" and over: "length bs - 4 \<le> sub_tlv_length bs"
  have rest: "drop (4 + sub_tlv_length bs) bs = []" using over by simp
  have val: "slice bs 4 (4 + sub_tlv_length bs) = drop 4 bs" using over by (simp add: slice_def)
  show ?thesis
    by (simp only: asla_loop_step [OF len] rest val asla_loop_nil)
qed

lemma asla_loop_unknown:
  "reg (sub_tlv_type bs) = None \<Longrightarrow> 4 \<le> length bs \<Longrightarrow> 
   asla_sub_tlvs_loop reg bs acc =
     asla_sub_tlvs_loop reg (drop (4 + sub_tlv_length bs) bs)
       (acc @ [VDict [(''type'', VInt (int (sub_tlv_type bs))),
                      (''value'', VStr (str_bytes (b2a_hex (slice bs 4 (4 + sub_tlv_length bs)))))]])"
  by (simp add: asla_loop_step sub_tlv_entry_def)


lemma b2a_hex_deadbeef: "b2a_hex [0xde, 0xad, 0xbe, 0xef] = ''deadbeef''"
  by (simp add: b2a_hex_def hex_digit_def)

lemma unknown_loop_overlong:
  "asla_sub_tlvs_loop leaf_tlvs [0xff, 0xff, 0x00, 0x08, 0xde, 0xad, 0xbe, 0xef] [] =
     Inr [VDict [(''type'', VInt 65535),
                 (''value'', VStr (''b'' @ [CHR 0x27] @ ''deadbeef'' @ [CHR 0x27]))]]"
  by (simp add: asla_loop_overlong sub_tlv_length_def sub_tlv_type_def be_nat_2
      sub_tlv_entry_def leaf_tlvs_def b2a_hex_deadbeef str_bytes_def)

section \<open>The two containers\<close>

lemma AppSpecLinkAttr_unpack_char:
  assumes "2 \<le> length data"
  shows "AppSpecLinkAttr_unpack reg data =
     (if ((unat (data ! 0) = 4 \<or> unat (data ! 0) = 8) \<and> length data < 4 + unat (data ! 0)) \<or>
         ((unat (data ! 1) = 4 \<or> unat (data ! 1) = 8) \<and>
            length data < 4 + unat (data ! 0) + unat (data ! 1))
      then Inl StructError
      else
        (case asla_sub_tlvs_loop reg (drop (4 + unat (data ! 0) + unat (data ! 1)) data) [] of
           Inl e \<Rightarrow> Inl e
         | Inr sub_tlvs \<Rightarrow>
             Inr \<lparr>tlv_type = 1122, tlv_type_str = ''ASLA'',
                  tlv_value =
                    VDict [(''sabm'', VDict [(''len'', VInt (int (unat (data ! 0)))),
                              (''value'', mask_value (unat (data ! 0))
                                 (slice data 4 (4 + unat (data ! 0))))]),
                           (''udabm'', VDict [(''len'', VInt (int (unat (data ! 1)))),
                              (''value'', mask_value (unat (data ! 1))
                                 (slice data (4 + unat (data ! 0))
                                    (4 + unat (data ! 0) + unat (data ! 1))))]),
                           (''sub_tlvs'', VList sub_tlvs)]\<rparr>))"
  using assms
  by (auto simp add: AppSpecLinkAttr_unpack_blocks mask_block_char add.assoc split: sum.splits)

lemma FlexAlgorithmDefine_unpack_char:
  "FlexAlgorithmDefine_unpack reg data =
     (if length data < 4 then Inl StructError
      else
        (case asla_sub_tlvs_loop reg (drop 4 data) [] of
           Inl e \<Rightarrow> Inl e
         | Inr sub_tlvs \<Rightarrow>
             Inr \<lparr>tlv_type = 1039, tlv_type_str = ''flex_algo_defn'',
                  tlv_value = VDict [(''flex_algo'', VInt (int (unat (data ! 0)))),
                                     (''metric_type'', VInt (int (unat (data ! 1)))),
                                     (''calc_type'', VInt (int (unat (data ! 2)))),
                                     (''priority'', VInt (int (unat (data ! 3)))),
                                     (''sub_tlvs'', VList sub_tlvs)]\<rparr>))"
  by (auto simp add: FlexAlgorithmDefine_unpack_def struct_unpack_BBBB_def fad_loop_eq_asla_loop
      split: sum.splits)

lemma remainder_nonempty_length:
  "sub_tlvs_remainder k (drop n data) \<noteq> [] \<Longrightarrow> n < length data"
  by (cases "n < length data") (simp_all add: remainder_nil)


lemma asla_masks_ok_of_remainder:
  assumes "sub_tlvs_remainder k (drop (4 + sl + ul) data) \<noteq> []"
  shows "\<not> (((sl = 4 \<or> sl = 8) \<and> length data < 4 + sl) \<or>
            ((ul = 4 \<or> ul = 8) \<and> length data < 4 + sl + ul))" and "2 \<le> length data"
  using remainder_nonempty_length [OF assms] by auto

lemma flags_entry:
  "sub_tlv_entry leaf_tlvs 1043 [0x80, 0x00] =
     Inr (VDict [(''type'', VStr ''flex_algo_defn_flags''), (''value'', VDict [(''M'', VInt 1)])])"
  by (simp add: sub_tlv_entry_def leaf_tlvs_def FlexAlgoDefinitionFlags_unpack_def
      struct_unpack_H_def be_nat_2 tlv_dict_def)

lemma unknown_then_flags_loop:
  "asla_sub_tlvs_loop leaf_tlvs
     [0xff, 0xff, 0x00, 0x04, 0xde, 0xad, 0xbe, 0xef, 0x04, 0x13, 0x00, 0x02, 0x80, 0x00] [] =
     Inr [VDict [(''type'', VInt 65535),
                 (''value'', VStr (''b'' @ [CHR 0x27] @ ''deadbeef'' @ [CHR 0x27]))],
          VDict [(''type'', VStr ''flex_algo_defn_flags''), (''value'', VDict [(''M'', VInt 1)])]]"
proof -
  have len: "sub_tlv_length
      [0xff, 0xff, 0x00, 0x04, 0xde, 0xad, 0xbe, 0xef, 0x04, 0x13, 0x00, 0x02, 0x80, 0x00] = 4"
    and ty: "sub_tlv_type
      [0xff, 0xff, 0x00, 0x04, 0xde, 0xad, 0xbe, 0xef, 0x04, 0x13, 0x00, 0x02, 0x80, 0x00] = 65535"
    by (simp_all add: sub_tlv_length_def sub_tlv_type_def be_nat_2)
  have first: "sub_tlv_entry leaf_tlvs 65535 [0xde, 0xad, 0xbe, 0xef] =
      Inr (VDict [(''type'', VInt 65535),
                  (''value'', VStr (''b'' @ [CHR 0x27] @ ''deadbeef'' @ [CHR 0x27]))])"
    by (simp add: sub_tlv_entry_def leaf_tlvs_def b2a_hex_deadbeef str_bytes_def)
  have second: "asla_sub_tlvs_loop leaf_tlvs [0x04, 0x13, 0x00, 0x02, 0x80, 0x00] acc =
      Inr (acc @ [VDict [(''type'', VStr ''flex_algo_defn_flags''),
                         (''value'', VDict [(''M'', VInt 1)])]])" for acc
    by (simp add: asla_loop_overlong sub_tlv_length_def sub_tlv_type_def be_nat_2 flags_entry)
  show ?thesis
    by (subst asla_loop_step) (simp_all add: len ty slice_def first second)
qed

lemma unknown_loop:
  "asla_sub_tlvs_loop leaf_tlvs [0xff, 0xff, 0x00, 0x04, 0xde, 0xad, 0xbe, 0xef] [] =
     Inr [VDict [(''type'', VInt 65535),
                 (''value'', VStr (''b'' @ [CHR 0x27] @ ''deadbeef'' @ [CHR 0x27]))]]"
  by (simp add: asla_loop_overlong sub_tlv_length_def sub_tlv_type_def be_nat_2
      sub_tlv_entry_def leaf_tlvs_def b2a_hex_deadbeef str_bytes_def)

lemma walk_state_nonempty:
  "walk_state reg k bs = Some r \<Longrightarrow> r \<noteq> [] \<Longrightarrow> bs \<noteq> []"
  by (cases k) (auto split: if_splits)

lemma asla_loop_reaches_short:
  "walk_state reg k bs = Some r \<Longrightarrow> r \<noteq> [] \<Longrightarrow> length r < 4 \<Longrightarrow>
   asla_sub_tlvs_loop reg bs acc = Inl StructError"
proof (induction k arbitrary: bs acc)
  case 0
  then show ?case by (simp add: asla_loop_short)
next
  case (Suc k)
  from Suc.prems(1) have len: "4 \<le> length bs" by (simp split: if_splits)
  from Suc.prems(1) len obtain d where
    d: "sub_tlv_entry reg (sub_tlv_type bs) (slice bs 4 (4 + sub_tlv_length bs)) = Inr d"
    and next_state: "walk_state reg k (drop (4 + sub_tlv_length bs) bs) = Some r"
    by (auto split: sum.splits)
  from Suc.IH [OF next_state Suc.prems(2,3), of "acc @ [d]"]
  show ?case by (simp add: asla_loop_step [OF len] d)
qed

lemma walk_state_drop_length:
  "walk_state reg k (drop n data) = Some r \<Longrightarrow> r \<noteq> [] \<Longrightarrow> n < length data"
  using walk_state_nonempty [of reg k "drop n data" r] by (cases "n < length data") simp_all

lemma walk_state_flags_then_stray:
  "walk_state leaf_tlvs 1 [0x04, 0x13, 0x00, 0x02, 0x80, 0x00, 0x04, 0x13] = Some [0x04, 0x13]"
  by (simp add: sub_tlv_type_def sub_tlv_length_def be_nat_2 slice_def flags_entry)

section \<open>Claims about the sub-TLV walk\<close>

text \<open>
  C3, as amended. In the sub-TLV walk of \<^verbatim>\<open>FlexAlgorithmDefine.unpack\<close> and of
  \<^verbatim>\<open>AppSpecLinkAttr.unpack\<close>, with any registry: if the walk gets to an iteration at
  which a non-empty remainder of fewer than 4 bytes is left, the decode fails with
  \<^verbatim>\<open>struct.error\<close>, raised by the header read; and whatever the earlier decoders do, a
  buffer whose headers lead to such a remainder never decodes. A sub-TLV whose declared
  length exceeds the bytes remaining after its header is not rejected: at any state of
  the loop its value is the shorter slice of the bytes present, decoded by the registered
  class or dumped by the fallback, and the walk ends after it.
\<close>

theorem sub_tlv_walk_truncation:
  "(walk_state reg k (drop 4 data) = Some r \<and> r \<noteq> [] \<and> length r < 4 \<longrightarrow>
      FlexAlgorithmDefine_unpack reg data = Inl StructError) \<and>
   (walk_state reg k (drop (4 + unat (data ! 0) + unat (data ! 1)) data) = Some r \<and>
    r \<noteq> [] \<and> length r < 4 \<longrightarrow>
      AppSpecLinkAttr_unpack reg data = Inl StructError) \<and>
   (sub_tlvs_remainder k (drop 4 data) \<noteq> [] \<and> length (sub_tlvs_remainder k (drop 4 data)) < 4 \<longrightarrow>
      (\<exists>e. FlexAlgorithmDefine_unpack reg data = Inl e)) \<and>
   (sub_tlvs_remainder k (drop (4 + unat (data ! 0) + unat (data ! 1)) data) \<noteq> [] \<and>
    length (sub_tlvs_remainder k (drop (4 + unat (data ! 0) + unat (data ! 1)) data)) < 4 \<longrightarrow>
      (\<exists>e. AppSpecLinkAttr_unpack reg data = Inl e)) \<and>
   (4 \<le> length bs \<and> length bs - 4 < sub_tlv_length bs \<longrightarrow>
      fad_sub_tlvs_loop reg bs acc =
        (case sub_tlv_entry reg (sub_tlv_type bs) (drop 4 bs) of
           Inl e \<Rightarrow> Inl e
         | Inr d \<Rightarrow> Inr (acc @ [d])) \<and>
      asla_sub_tlvs_loop reg bs acc =
        (case sub_tlv_entry reg (sub_tlv_type bs) (drop 4 bs) of
           Inl e \<Rightarrow> Inl e
         | Inr d \<Rightarrow> Inr (acc @ [d])))"
proof (intro conjI impI; (elim conjE)?)
  assume st: "walk_state reg k (drop 4 data) = Some r" and ne: "r \<noteq> []"
    and short: "length r < 4"
  have len: "\<not> length data < 4" using walk_state_drop_length [OF st ne] by simp
  from asla_loop_reaches_short [OF st ne short, of "[]"]
  show "FlexAlgorithmDefine_unpack reg data = Inl StructError"
    by (simp add: FlexAlgorithmDefine_unpack_char len)
next
  assume st: "walk_state reg k (drop (4 + unat (data ! 0) + unat (data ! 1)) data) = Some r"
    and ne: "r \<noteq> []" and short: "length r < 4"
  have long: "4 + unat (data ! 0) + unat (data ! 1) < length data"
    by (rule walk_state_drop_length [OF st ne])
  then have len2: "2 \<le> length data"
    and ok: "\<not> (((unat (data ! 0) = 4 \<or> unat (data ! 0) = 8) \<and>
                  length data < 4 + unat (data ! 0)) \<or>
               ((unat (data ! 1) = 4 \<or> unat (data ! 1) = 8) \<and>
                  length data < 4 + unat (data ! 0) + unat (data ! 1)))"
    by auto
  from asla_loop_reaches_short [OF st ne short, of "[]"]
  show "AppSpecLinkAttr_unpack reg data = Inl StructError"
    unfolding AppSpecLinkAttr_unpack_char [OF len2] if_not_P [OF ok] by simp
next
  assume ne: "sub_tlvs_remainder k (drop 4 data) \<noteq> []"
    and short: "length (sub_tlvs_remainder k (drop 4 data)) < 4"
  have len: "\<not> length data < 4" using remainder_nonempty_length [OF ne] by simp
  from asla_loop_truncated_header [OF ne short, of reg "[]"]
  show "\<exists>e. FlexAlgorithmDefine_unpack reg data = Inl e"
    by (auto simp: FlexAlgorithmDefine_unpack_char len)
next
  assume ne: "sub_tlvs_remainder k (drop (4 + unat (data ! 0) + unat (data ! 1)) data) \<noteq> []"
    and short: "length (sub_tlvs_remainder k (drop (4 + unat (data ! 0) + unat (data ! 1)) data)) < 4"
  note ok = asla_masks_ok_of_remainder [OF ne]
  from asla_loop_truncated_header [OF ne short, of reg "[]"]
  show "\<exists>e. AppSpecLinkAttr_unpack reg data = Inl e"
    unfolding AppSpecLinkAttr_unpack_char [OF ok(2)] if_not_P [OF ok(1)] by auto
next
  assume len: "4 \<le> length bs" and over: "length bs - 4 < sub_tlv_length bs"
  then have over': "length bs - 4 \<le> sub_tlv_length bs" by simp
  show "asla_sub_tlvs_loop reg bs acc =
        (case sub_tlv_entry reg (sub_tlv_type bs) (drop 4 bs) of
           Inl e \<Rightarrow> Inl e
         | Inr d \<Rightarrow> Inr (acc @ [d]))"
    by (rule asla_loop_overlong [OF len over'])
  then show "fad_sub_tlvs_loop reg bs acc =
        (case sub_tlv_entry reg (sub_tlv_type bs) (drop 4 bs) of
           Inl e \<Rightarrow> Inl e
         | Inr d \<Rightarrow> Inr (acc @ [d]))"
    by (simp only: fad_loop_eq_asla_loop)
qed

theorem sub_tlv_walk_truncation_witness:
  "FlexAlgorithmDefine_unpack leaf_tlvs
     [0x80, 0x01, 0x00, 0x80, 0x04, 0x13, 0x00, 0x02, 0x80, 0x00, 0x04, 0x13] = Inl StructError \<and>
   AppSpecLinkAttr_unpack leaf_tlvs
     [0x00, 0x00, 0x00, 0x00, 0x04, 0x13, 0x00, 0x02, 0x80, 0x00, 0x04, 0x13] = Inl StructError \<and>
   asla_sub_tlvs_loop leaf_tlvs [0xff, 0xff, 0x00, 0x08, 0xde, 0xad, 0xbe, 0xef] [] =
     Inr [VDict [(''type'', VInt 65535),
                 (''value'', VStr (''b'' @ [CHR 0x27] @ ''deadbeef'' @ [CHR 0x27]))]] \<and>
   fad_sub_tlvs_loop leaf_tlvs [0xff, 0xff, 0x00, 0x08, 0xde, 0xad, 0xbe, 0xef] [] =
     Inr [VDict [(''type'', VInt 65535),
                 (''value'', VStr (''b'' @ [CHR 0x27] @ ''deadbeef'' @ [CHR 0x27]))]]"
proof -
  have st: "walk_state leaf_tlvs 1 [0x04, 0x13, 0x00, 0x02, 0x80, 0x00, 0x04, 0x13] =
      Some [0x04, 0x13]"
    by (rule walk_state_flags_then_stray)
  have fad: "FlexAlgorithmDefine_unpack leaf_tlvs
     [0x80, 0x01, 0x00, 0x80, 0x04, 0x13, 0x00, 0x02, 0x80, 0x00, 0x04, 0x13] = Inl StructError"
    using sub_tlv_walk_truncation [of leaf_tlvs 1
        "[0x80, 0x01, 0x00, 0x80, 0x04, 0x13, 0x00, 0x02, 0x80, 0x00, 0x04, 0x13]"
        "[0x04, 0x13]"] st
    by simp
  have asla: "AppSpecLinkAttr_unpack leaf_tlvs
     [0x00, 0x00, 0x00, 0x00, 0x04, 0x13, 0x00, 0x02, 0x80, 0x00, 0x04, 0x13] = Inl StructError"
    using sub_tlv_walk_truncation [of leaf_tlvs 1
        "[0x00, 0x00, 0x00, 0x00, 0x04, 0x13, 0x00, 0x02, 0x80, 0x00, 0x04, 0x13]"
        "[0x04, 0x13]"] st
    by simp
  have over: "asla_sub_tlvs_loop leaf_tlvs [0xff, 0xff, 0x00, 0x08, 0xde, 0xad, 0xbe, 0xef] [] =
     Inr [VDict [(''type'', VInt 65535),
                 (''value'', VStr (''b'' @ [CHR 0x27] @ ''deadbeef'' @ [CHR 0x27]))]] \<and>
   fad_sub_tlvs_loop leaf_tlvs [0xff, 0xff, 0x00, 0x08, 0xde, 0xad, 0xbe, 0xef] [] =
     Inr [VDict [(''type'', VInt 65535),
                 (''value'', VStr (''b'' @ [CHR 0x27] @ ''deadbeef'' @ [CHR 0x27]))]]"
    using sub_tlv_walk_truncation [of leaf_tlvs 0 "[]" "[]"
        "[0xff, 0xff, 0x00, 0x08, 0xde, 0xad, 0xbe, 0xef]" "[]"]
    by (simp add: sub_tlv_length_def sub_tlv_type_def be_nat_2 sub_tlv_entry_def leaf_tlvs_def
        b2a_hex_deadbeef str_bytes_def)
  from fad asla over show ?thesis by blast
qed

text \<open>
  The claim C3 as first stated asks for a failure when the declared length exceeds the
  bytes remaining. With the header ff ff 00 08 followed by four bytes, both containers
  return a result whose sub-TLV holds the four bytes present.
\<close>

theorem sub_tlv_overlong_length_counterexample:
  "sub_tlv_length [0xff, 0xff, 0x00, 0x08, 0xde, 0xad, 0xbe, 0xef] = 8 \<and>
   AppSpecLinkAttr_unpack leaf_tlvs
     [0x00, 0x00, 0x00, 0x00, 0xff, 0xff, 0x00, 0x08, 0xde, 0xad, 0xbe, 0xef] =
     Inr \<lparr>tlv_type = 1122, tlv_type_str = ''ASLA'',
          tlv_value =
            VDict [(''sabm'', VDict [(''len'', VInt 0), (''value'', VNone)]),
                   (''udabm'', VDict [(''len'', VInt 0), (''value'', VNone)]),
                   (''sub_tlvs'', VList [VDict [(''type'', VInt 65535),
                      (''value'', VStr (''b'' @ [CHR 0x27] @ ''deadbeef'' @ [CHR 0x27]))]])]\<rparr> \<and>
   FlexAlgorithmDefine_unpack leaf_tlvs
     [0x80, 0x01, 0x00, 0x80, 0xff, 0xff, 0x00, 0x08, 0xde, 0xad, 0xbe, 0xef] =
     Inr \<lparr>tlv_type = 1039, tlv_type_str = ''flex_algo_defn'',
          tlv_value =
            VDict [(''flex_algo'', VInt 128), (''metric_type'', VInt 1),
                   (''calc_type'', VInt 0), (''priority'', VInt 128),
                   (''sub_tlvs'', VList [VDict [(''type'', VInt 65535),
                      (''value'', VStr (''b'' @ [CHR 0x27] @ ''deadbeef'' @ [CHR 0x27]))]])]\<rparr>"
proof (intro conjI)
  show "sub_tlv_length [0xff, 0xff, 0x00, 0x08, 0xde, 0xad, 0xbe, 0xef] = 8"
    by (simp add: sub_tlv_length_def be_nat_2)
  show "AppSpecLinkAttr_unpack leaf_tlvs
     [0x00, 0x00, 0x00, 0x00, 0xff, 0xff, 0x00, 0x08, 0xde, 0xad, 0xbe, 0xef] =
     Inr \<lparr>tlv_type = 1122, tlv_type_str = ''ASLA'',
          tlv_value =
            VDict [(''sabm'', VDict [(''len'', VInt 0), (''value'', VNone)]),
                   (''udabm'', VDict [(''len'', VInt 0), (''value'', VNone)]),
                   (''sub_tlvs'', VList [VDict [(''type'', VInt 65535),
                      (''value'', VStr (''b'' @ [CHR 0x27] @ ''deadbeef'' @ [CHR 0x27]))]])]\<rparr>"
    by (simp add: AppSpecLinkAttr_unpack_char mask_value_def unknown_loop_overlong)
  show "FlexAlgorithmDefine_unpack leaf_tlvs
     [0x80, 0x01, 0x00, 0x80, 0xff, 0xff, 0x00, 0x08, 0xde, 0xad, 0xbe, 0xef] =
     Inr \<lparr>tlv_type = 1039, tlv_type_str = ''flex_algo_defn'',
          tlv_value =
            VDict [(''flex_algo'', VInt 128), (''metric_type'', VInt 1),
                   (''calc_type'', VInt 0), (''priority'', VInt 128),
                   (''sub_tlvs'', VList [VDict [(''type'', VInt 65535),
                      (''value'', VStr (''b'' @ [CHR 0x27] @ ''deadbeef'' @ [CHR 0x27]))]])]\<rparr>"
    by (simp add: FlexAlgorithmDefine_unpack_char unknown_loop_overlong)
qed

text \<open>
  C4. A sub-TLV whose type code is not registered does not fail the container, and its
  siblings are decoded after it; the record that is emitted holds the numeric type code,
  but its value is \<^verbatim>\<open>str(binascii.b2a_hex(value))\<close>, which under Python 3 is the text
  \<^verbatim>\<open>b'deadbeef'\<close> with the bytes prefix and quotes, not the hexadecimal string
  \<^verbatim>\<open>deadbeef\<close> itself.
\<close>

theorem unknown_sub_tlv_fallback_value:
  "AppSpecLinkAttr_unpack leaf_tlvs
     [0x00, 0x00, 0x00, 0x00, 0xff, 0xff, 0x00, 0x04, 0xde, 0xad, 0xbe, 0xef] =
     Inr \<lparr>tlv_type = 1122, tlv_type_str = ''ASLA'',
          tlv_value =
            VDict [(''sabm'', VDict [(''len'', VInt 0), (''value'', VNone)]),
                   (''udabm'', VDict [(''len'', VInt 0), (''value'', VNone)]),
                   (''sub_tlvs'', VList [VDict [(''type'', VInt 65535),
                      (''value'', VStr (''b'' @ [CHR 0x27] @ ''deadbeef'' @ [CHR 0x27]))]])]\<rparr> \<and>
   FlexAlgorithmDefine_unpack leaf_tlvs
     [0x80, 0x01, 0x00, 0x80, 0xff, 0xff, 0x00, 0x04, 0xde, 0xad, 0xbe, 0xef,
      0x04, 0x13, 0x00, 0x02, 0x80, 0x00] =
     Inr \<lparr>tlv_type = 1039, tlv_type_str = ''flex_algo_defn'',
          tlv_value =
            VDict [(''flex_algo'', VInt 128), (''metric_type'', VInt 1),
                   (''calc_type'', VInt 0), (''priority'', VInt 128),
                   (''sub_tlvs'', VList [VDict [(''type'', VInt 65535),
                      (''value'', VStr (''b'' @ [CHR 0x27] @ ''deadbeef'' @ [CHR 0x27]))],
                      VDict [(''type'', VStr ''flex_algo_defn_flags''),
                             (''value'', VDict [(''M'', VInt 1)])]])]\<rparr> \<and>
   b2a_hex [0xde, 0xad, 0xbe, 0xef] = ''deadbeef'' \<and>
   ''b'' @ [CHR 0x27] @ ''deadbeef'' @ [CHR 0x27] \<noteq> ''deadbeef''"
proof (intro conjI)
  show "AppSpecLinkAttr_unpack leaf_tlvs
     [0x00, 0x00, 0x00, 0x00, 0xff, 0xff, 0x00, 0x04, 0xde, 0xad, 0xbe, 0xef] =
     Inr \<lparr>tlv_type = 1122, tlv_type_str = ''ASLA'',
          tlv_value =
            VDict [(''sabm'', VDict [(''len'', VInt 0), (''value'', VNone)]),
                   (''udabm'', VDict [(''len'', VInt 0), (''value'', VNone)]),
                   (''sub_tlvs'', VList [VDict [(''type'', VInt 65535),
                      (''value'', VStr (''b'' @ [CHR 0x27] @ ''deadbeef'' @ [CHR 0x27]))]])]\<rparr>"
    by (simp add: AppSpecLinkAttr_unpack_char mask_value_def unknown_loop)
  show "FlexAlgorithmDefine_unpack leaf_tlvs
     [0x80, 0x01, 0x00, 0x80, 0xff, 0xff, 0x00, 0x04, 0xde, 0xad, 0xbe, 0xef,
      0x04, 0x13, 0x00, 0x02, 0x80, 0x00] =
     Inr \<lparr>tlv_type = 1039, tlv_type_str = ''flex_algo_defn'',
          tlv_value =
            VDict [(''flex_algo'', VInt 128), (''metric_type'', VInt 1),
                   (''calc_type'', VInt 0), (''priority'', VInt 128),
                   (''sub_tlvs'', VList [VDict [(''type'', VInt 65535),
                      (''value'', VStr (''b'' @ [CHR 0x27] @ ''deadbeef'' @ [CHR 0x27]))],
                      VDict [(''type'', VStr ''flex_algo_defn_flags''),
                             (''value'', VDict [(''M'', VInt 1)])]])]\<rparr>"
    by (simp add: FlexAlgorithmDefine_unpack_char unknown_then_flags_loop)
  show "b2a_hex [0xde, 0xad, 0xbe, 0xef] = ''deadbeef''" by (rule b2a_hex_deadbeef)
  show "''b'' @ [CHR 0x27] @ ''deadbeef'' @ [CHR 0x27] \<noteq> ''deadbeef''" by simp
qed

section \<open>AppSpecLinkAttr on concrete buffers\<close>

lemma asla_header_only: "AppSpecLinkAttr_unpack reg [0x00, 0x00, 0x00, 0x00] =
     Inr \<lparr>tlv_type = 1122, tlv_type_str = ''ASLA'',
          tlv_value =
            VDict [(''sabm'', VDict [(''len'', VInt 0), (''value'', VNone)]),
                   (''udabm'', VDict [(''len'', VInt 0), (''value'', VNone)]),
                   (''sub_tlvs'', VList [])]\<rparr>"
  by (simp add: AppSpecLinkAttr_unpack_char mask_value_def asla_loop_nil)

lemma asla_short_buffer_ok: "AppSpecLinkAttr_unpack reg [0x00, 0x00] =
     Inr \<lparr>tlv_type = 1122, tlv_type_str = ''ASLA'',
          tlv_value =
            VDict [(''sabm'', VDict [(''len'', VInt 0), (''value'', VNone)]),
                   (''udabm'', VDict [(''len'', VInt 0), (''value'', VNone)]),
                   (''sub_tlvs'', VList [])]\<rparr>"
  by (simp add: AppSpecLinkAttr_unpack_char mask_value_def asla_loop_nil)

lemma asla_short_mask_ok: "AppSpecLinkAttr_unpack reg [0x03, 0x00, 0x00, 0x00, 0xab] =
     Inr \<lparr>tlv_type = 1122, tlv_type_str = ''ASLA'',
          tlv_value =
            VDict [(''sabm'', VDict [(''len'', VInt 3), (''value'', VStr ''0xab'')]),
                   (''udabm'', VDict [(''len'', VInt 0), (''value'', VNone)]),
                   (''sub_tlvs'', VList [])]\<rparr>"
  by (simp add: AppSpecLinkAttr_unpack_char mask_value_def asla_loop_nil slice_def b2a_hex_def
      hex_digit_def)

lemma asla_sabm_only: "AppSpecLinkAttr_unpack reg [0x04, 0x00, 0x00, 0x00, 0x10, 0x00, 0x00, 0x00] =
     Inr \<lparr>tlv_type = 1122, tlv_type_str = ''ASLA'',
          tlv_value =
            VDict [(''sabm'', VDict [(''len'', VInt 4), (''value'', VStr ''0x10000000'')]),
                   (''udabm'', VDict [(''len'', VInt 0), (''value'', VNone)]),
                   (''sub_tlvs'', VList [])]\<rparr>"
  by (simp add: AppSpecLinkAttr_unpack_char mask_value_def asla_loop_nil slice_def hex_fixed_8
      b2a_hex_def hex_digit_def)

lemma length_hex_fixed: "length (hex_fixed w n) = w"
  by (induction w arbitrary: n) simp_all

lemma hex_12345678: "b2a_hex [0x12, 0x34, 0x56, 0x78, 0x9a, 0xbc, 0xde, 0xf0] = ''123456789abcdef0''"
  by (simp add: b2a_hex_def hex_digit_def)

lemma hex_abcdef: "b2a_hex [0xab, 0xcd, 0xef] = ''abcdef''"
  by (simp add: b2a_hex_def hex_digit_def)

lemma hex_10000000: "b2a_hex [0x10, 0x00, 0x00, 0x00] = ''10000000''"
  by (simp add: b2a_hex_def hex_digit_def)

section \<open>Where AppSpecLinkAttr does raise\<close>

text \<open>
  \<^verbatim>\<open>AppSpecLinkAttr.unpack\<close> raises \<^verbatim>\<open>IndexError\<close> on a buffer of fewer than 2
  bytes, and \<^verbatim>\<open>struct.error\<close> whenever a declared SABM or UDABM length of 4 or 8 finds
  fewer than that many bytes at its offset.
\<close>

lemma AppSpecLinkAttr_unpack_failures:
  "(length data < 2 \<longrightarrow> AppSpecLinkAttr_unpack reg data = Inl IndexError) \<and>
   (2 \<le> length data \<and> (unat (data ! 0) = 4 \<or> unat (data ! 0) = 8) \<and>
    length data < 4 + unat (data ! 0) \<longrightarrow>
      AppSpecLinkAttr_unpack reg data = Inl StructError) \<and>
   (2 \<le> length data \<and> (unat (data ! 1) = 4 \<or> unat (data ! 1) = 8) \<and>
    length data < 4 + unat (data ! 0) + unat (data ! 1) \<longrightarrow>
      AppSpecLinkAttr_unpack reg data = Inl StructError) \<and>
   (AppSpecLinkAttr_unpack reg data = Inr t \<and> (unat (data ! 0) = 4 \<or> unat (data ! 0) = 8) \<longrightarrow>
      length (slice data 4 (4 + unat (data ! 0))) = unat (data ! 0)) \<and>
   (AppSpecLinkAttr_unpack reg data = Inr t \<and> (unat (data ! 1) = 4 \<or> unat (data ! 1) = 8) \<longrightarrow>
      length (slice data (4 + unat (data ! 0)) (4 + unat (data ! 0) + unat (data ! 1))) =
        unat (data ! 1))"
proof (intro conjI impI; (elim conjE)?)
  assume "length data < 2"
  then show "AppSpecLinkAttr_unpack reg data = Inl IndexError"
    by (simp add: AppSpecLinkAttr_unpack_def)
next
  assume "2 \<le> length data" "unat (data ! 0) = 4 \<or> unat (data ! 0) = 8"
    "length data < 4 + unat (data ! 0)"
  then show "AppSpecLinkAttr_unpack reg data = Inl StructError"
    by (simp add: AppSpecLinkAttr_unpack_char)
next
  assume "2 \<le> length data" "unat (data ! 1) = 4 \<or> unat (data ! 1) = 8"
    "length data < 4 + unat (data ! 0) + unat (data ! 1)"
  then show "AppSpecLinkAttr_unpack reg data = Inl StructError"
    by (simp add: AppSpecLinkAttr_unpack_char)
next
  assume ok: "AppSpecLinkAttr_unpack reg data = Inr t"
    and m: "unat (data ! 0) = 4 \<or> unat (data ! 0) = 8"
  have len: "2 \<le> length data"
    using ok by (cases "length data < 2") (simp_all add: AppSpecLinkAttr_unpack_def)
  have "\<not> length data < 4 + unat (data ! 0)"
    using ok m by (auto simp: AppSpecLinkAttr_unpack_char [OF len])
  then show "length (slice data 4 (4 + unat (data ! 0))) = unat (data ! 0)"
    by (simp add: slice_def)
next
  assume ok: "AppSpecLinkAttr_unpack reg data = Inr t"
    and m: "unat (data ! 1) = 4 \<or> unat (data ! 1) = 8"
  have len: "2 \<le> length data"
    using ok by (cases "length data < 2") (simp_all add: AppSpecLinkAttr_unpack_def)
  have "\<not> length data < 4 + unat (data ! 0) + unat (data ! 1)"
    using ok m by (auto simp: AppSpecLinkAttr_unpack_char [OF len] split: if_splits)
  then show "length (slice data (4 + unat (data ! 0)) (4 + unat (data ! 0) + unat (data ! 1))) =
        unat (data ! 1)"
    by (simp add: slice_def)
qed

lemma AppSpecLinkAttr_unpack_failures_instances:
  "AppSpecLinkAttr_unpack (\<lambda>_. None) [] = Inl IndexError \<and>
   AppSpecLinkAttr_unpack (\<lambda>_. None) [0x04, 0x04, 0x00] = Inl StructError \<and>
   AppSpecLinkAttr_unpack (\<lambda>_. None) [0x00, 0x08, 0x00, 0x00, 0x12, 0x34, 0x56, 0x78] =
     Inl StructError \<and>
   length (slice [0x04, 0x00, 0x00, 0x00, 0x10, 0x00, 0x00, 0x00 :: byte] 4 8) = 4"
  using AppSpecLinkAttr_unpack_failures [of "[]" "\<lambda>_. None"]
    AppSpecLinkAttr_unpack_failures [of "[0x04, 0x04, 0x00]" "\<lambda>_. None"]
    AppSpecLinkAttr_unpack_failures [of "[0x00, 0x08, 0x00, 0x00, 0x12, 0x34, 0x56, 0x78]" "\<lambda>_. None"]
    AppSpecLinkAttr_unpack_failures [of "[0x04, 0x00, 0x00, 0x00, 0x10, 0x00, 0x00, 0x00]" "\<lambda>_. None"
      "\<lparr>tlv_type = 1122, tlv_type_str = ''ASLA'',
          tlv_value =
            VDict [(''sabm'', VDict [(''len'', VInt 4), (''value'', VStr ''0x10000000'')]),
                   (''udabm'', VDict [(''len'', VInt 0), (''value'', VNone)]),
                   (''sub_tlvs'', VList [])]\<rparr>"]
    asla_sabm_only [of "\<lambda>_. None"]
  by simp

section \<open>Claims about AppSpecLinkAttr\<close>

text \<open>
  C2. The claim asks for a failure on every buffer shorter than the 4-byte header and on
  every declared mask length that exceeds the bytes remaining, as the comment on the
  fixed header and the tests of short buffers do. The code has no such check. The
  two-byte buffer 00 00 decodes to empty masks and no sub-TLV, and a declared SABM
  length of 3 with a single byte present decodes to a mask text built from that one
  byte.
\<close>

theorem AppSpecLinkAttr_unpack_silent_truncation:
  "AppSpecLinkAttr_unpack leaf_tlvs [0x00, 0x00] =
     Inr \<lparr>tlv_type = 1122, tlv_type_str = ''ASLA'',
          tlv_value =
            VDict [(''sabm'', VDict [(''len'', VInt 0), (''value'', VNone)]),
                   (''udabm'', VDict [(''len'', VInt 0), (''value'', VNone)]),
                   (''sub_tlvs'', VList [])]\<rparr> \<and>
   AppSpecLinkAttr_unpack leaf_tlvs [0x03, 0x00, 0x00, 0x00, 0xab] =
     Inr \<lparr>tlv_type = 1122, tlv_type_str = ''ASLA'',
          tlv_value =
            VDict [(''sabm'', VDict [(''len'', VInt 3), (''value'', VStr ''0xab'')]),
                   (''udabm'', VDict [(''len'', VInt 0), (''value'', VNone)]),
                   (''sub_tlvs'', VList [])]\<rparr>"
  by (simp only: asla_short_buffer_ok asla_short_mask_ok simp_thms)

text \<open>
  C7. Whenever \<^verbatim>\<open>AppSpecLinkAttr.unpack\<close> returns, and it returns whenever the header
  and the masks can be read and the sub-TLV walk succeeds, the result is the mapping
  with keys sabm, udabm and sub_tlvs in which each mask is \<open>mask_value\<close> of its
  declared length and of the bytes sliced for it: \<^verbatim>\<open>None\<close> for length 0, \<^verbatim>\<open>0x\<close> and
  8 zero-padded digits for length 4, \<^verbatim>\<open>0x\<close> and 16 digits for length 8, the dump of
  the bytes present otherwise. The header-only buffer 00 00 00 00 gives empty masks and
  no sub-TLV.
\<close>

theorem AppSpecLinkAttr_unpack_result:
  "(2 \<le> length data \<and>
    \<not> ((unat (data ! 0) = 4 \<or> unat (data ! 0) = 8) \<and> length data < 4 + unat (data ! 0)) \<and>
    \<not> ((unat (data ! 1) = 4 \<or> unat (data ! 1) = 8) \<and>
         length data < 4 + unat (data ! 0) + unat (data ! 1)) \<and>
    asla_sub_tlvs_loop reg (drop (4 + unat (data ! 0) + unat (data ! 1)) data) [] = Inr sub_tlvs \<longrightarrow>
      AppSpecLinkAttr_unpack reg data =
        Inr \<lparr>tlv_type = 1122, tlv_type_str = ''ASLA'',
             tlv_value =
               VDict [(''sabm'', VDict [(''len'', VInt (int (unat (data ! 0)))),
                         (''value'', mask_value (unat (data ! 0))
                            (slice data 4 (4 + unat (data ! 0))))]),
                      (''udabm'', VDict [(''len'', VInt (int (unat (data ! 1)))),
                         (''value'', mask_value (unat (data ! 1))
                            (slice data (4 + unat (data ! 0))
                               (4 + unat (data ! 0) + unat (data ! 1))))]),
                      (''sub_tlvs'', VList sub_tlvs)]\<rparr>) \<and>
   (AppSpecLinkAttr_unpack reg data = Inr t \<longrightarrow>
      (\<exists>subs. t =
        \<lparr>tlv_type = 1122, tlv_type_str = ''ASLA'',
         tlv_value =
           VDict [(''sabm'', VDict [(''len'', VInt (int (unat (data ! 0)))),
                     (''value'', mask_value (unat (data ! 0))
                        (slice data 4 (4 + unat (data ! 0))))]),
                  (''udabm'', VDict [(''len'', VInt (int (unat (data ! 1)))),
                     (''value'', mask_value (unat (data ! 1))
                        (slice data (4 + unat (data ! 0))
                           (4 + unat (data ! 0) + unat (data ! 1))))]),
                  (''sub_tlvs'', VList subs)]\<rparr>)) \<and>
   length (hex_fixed 8 n) = 8 \<and> length (hex_fixed 16 n) = 16 \<and>
   AppSpecLinkAttr_unpack reg [0x00, 0x00, 0x00, 0x00] =
     Inr \<lparr>tlv_type = 1122, tlv_type_str = ''ASLA'',
          tlv_value =
            VDict [(''sabm'', VDict [(''len'', VInt 0), (''value'', VNone)]),
                   (''udabm'', VDict [(''len'', VInt 0), (''value'', VNone)]),
                   (''sub_tlvs'', VList [])]\<rparr>"
proof (intro conjI impI; (elim conjE)?)
  assume "2 \<le> length data"
    "\<not> ((unat (data ! 0) = 4 \<or> unat (data ! 0) = 8) \<and> length data < 4 + unat (data ! 0))"
    "\<not> ((unat (data ! 1) = 4 \<or> unat (data ! 1) = 8) \<and>
         length data < 4 + unat (data ! 0) + unat (data ! 1))"
    "asla_sub_tlvs_loop reg (drop (4 + unat (data ! 0) + unat (data ! 1)) data) [] = Inr sub_tlvs"
  then show "AppSpecLinkAttr_unpack reg data =
        Inr \<lparr>tlv_type = 1122, tlv_type_str = ''ASLA'',
             tlv_value =
               VDict [(''sabm'', VDict [(''len'', VInt (int (unat (data ! 0)))),
                         (''value'', mask_value (unat (data ! 0))
                            (slice data 4 (4 + unat (data ! 0))))]),
                      (''udabm'', VDict [(''len'', VInt (int (unat (data ! 1)))),
                         (''value'', mask_value (unat (data ! 1))
                            (slice data (4 + unat (data ! 0))
                               (4 + unat (data ! 0) + unat (data ! 1))))]),
                      (''sub_tlvs'', VList sub_tlvs)]\<rparr>"
    by (simp add: AppSpecLinkAttr_unpack_char)
next
  assume ok: "AppSpecLinkAttr_unpack reg data = Inr t"
  have len: "2 \<le> length data"
    using ok by (cases "length data < 2") (simp_all add: AppSpecLinkAttr_unpack_def)
  from ok show "\<exists>subs. t =
        \<lparr>tlv_type = 1122, tlv_type_str = ''ASLA'',
         tlv_value =
           VDict [(''sabm'', VDict [(''len'', VInt (int (unat (data ! 0)))),
                     (''value'', mask_value (unat (data ! 0))
                        (slice data 4 (4 + unat (data ! 0))))]),
                  (''udabm'', VDict [(''len'', VInt (int (unat (data ! 1)))),
                     (''value'', mask_value (unat (data ! 1))
                        (slice data (4 + unat (data ! 0))
                           (4 + unat (data ! 0) + unat (data ! 1))))]),
                  (''sub_tlvs'', VList subs)]\<rparr>"
    unfolding AppSpecLinkAttr_unpack_char [OF len]
    by (auto split: if_splits sum.splits)
next
  show "AppSpecLinkAttr_unpack reg [0x00, 0x00, 0x00, 0x00] =
     Inr \<lparr>tlv_type = 1122, tlv_type_str = ''ASLA'',
          tlv_value =
            VDict [(''sabm'', VDict [(''len'', VInt 0), (''value'', VNone)]),
                   (''udabm'', VDict [(''len'', VInt 0), (''value'', VNone)]),
                   (''sub_tlvs'', VList [])]\<rparr>"
    by (rule asla_header_only)
qed (simp_all only: length_hex_fixed)

theorem AppSpecLinkAttr_unpack_result_witness:
  "AppSpecLinkAttr_unpack (\<lambda>_. None)
     [0x08, 0x03, 0x00, 0x00, 0x12, 0x34, 0x56, 0x78, 0x9a, 0xbc, 0xde, 0xf0, 0xab, 0xcd, 0xef] =
     Inr \<lparr>tlv_type = 1122, tlv_type_str = ''ASLA'',
          tlv_value =
            VDict [(''sabm'', VDict [(''len'', VInt 8), (''value'', VStr ''0x123456789abcdef0'')]),
                   (''udabm'', VDict [(''len'', VInt 3), (''value'', VStr ''0xabcdef'')]),
                   (''sub_tlvs'', VList [])]\<rparr> \<and>
   AppSpecLinkAttr_unpack (\<lambda>_. None) [0x04, 0x00, 0x00, 0x00, 0x10, 0x00, 0x00, 0x00] =
     Inr \<lparr>tlv_type = 1122, tlv_type_str = ''ASLA'',
          tlv_value =
            VDict [(''sabm'', VDict [(''len'', VInt 4), (''value'', VStr ''0x10000000'')]),
                   (''udabm'', VDict [(''len'', VInt 0), (''value'', VNone)]),
                   (''sub_tlvs'', VList [])]\<rparr>"
  using AppSpecLinkAttr_unpack_result [of
      "[0x08, 0x03, 0x00, 0x00, 0x12, 0x34, 0x56, 0x78, 0x9a, 0xbc, 0xde, 0xf0, 0xab, 0xcd, 0xef]"
      "\<lambda>_. None" "[]"]
    AppSpecLinkAttr_unpack_result [of "[0x04, 0x00, 0x00, 0x00, 0x10, 0x00, 0x00, 0x00]"
      "\<lambda>_. None" "[]"]
  by (simp add: asla_loop_nil mask_value_def slice_def hex_fixed_16 hex_fixed_8 hex_12345678
      hex_abcdef hex_10000000)

section \<open>AS_PATH: parsing what was encoded\<close>

lemma length_be_bytes: "length (be_bytes w n) = w"
  by (induction w arbitrary: n) simp_all

lemma unat_of_nat_byte: "unat (of_nat n :: byte) = n mod 256"
  by (simp add: unat_of_nat)

lemma be_nat_be_bytes: "n < 256 ^ w \<Longrightarrow> be_nat (be_bytes w n) = n"
proof (induction w arbitrary: n)
  case 0
  then show ?case by (simp add: be_nat_def)
next
  case (Suc w)
  from Suc.prems have "n div 256 < 256 ^ w" by (simp add: less_mult_imp_div_less)
  from Suc.IH [OF this] show ?case
    by (simp add: be_nat_snoc unat_of_nat_byte)
qed

lemma chunk_of_concat:
  "(\<And>a. a \<in> set xs \<Longrightarrow> length (f a) = w) \<Longrightarrow> k < length xs \<Longrightarrow>
   take w (drop (k * w) (concat (map f xs) @ rest)) = f (xs ! k)"
proof (induction xs arbitrary: k)
  case Nil
  then show ?case by simp
next
  case (Cons a xs)
  have la: "length (f a) = w" using Cons.prems(1) by simp
  show ?case
  proof (cases k)
    case 0
    then show ?thesis using la by simp
  next
    case (Suc k')
    have "drop (k * w) (concat (map f (a # xs)) @ rest) = drop (k' * w) (concat (map f xs) @ rest)"
      using la Suc by simp
    then show ?thesis using Cons.IH [of k'] Cons.prems Suc by simp
  qed
qed

lemma length_concat_fixed:
  "(\<And>a. a \<in> set xs \<Longrightarrow> length (f a) = w) \<Longrightarrow> length (concat (map f xs)) = length xs * w"
  by (induction xs) simp_all

lemma aspath_raw_Cons:
  "aspath_raw asn4 (seg # path) = encode_segment asn4 seg @ aspath_raw asn4 path"
  by (cases seg) (simp add: aspath_raw_def encode_segment_def)

lemma aspath_raw_Nil: "aspath_raw asn4 [] = []"
  by (simp add: aspath_raw_def)

lemma parse_segment:
  assumes t: "t \<in> {1, 2, 3, 4}" and cnt: "length asns \<le> 255"
    and fit: "\<And>a. a \<in> set asns \<Longrightarrow> a < 256 ^ asn_width asn4"
  shows "ASPath_parse asn4 (encode_segment asn4 (t, asns) @ rest) =
     (case ASPath_parse asn4 rest of Inl e \<Rightarrow> Inl e | Inr p \<Rightarrow> Inr ((t, asns) # p))"
proof -
  define w where "w = asn_width asn4"
  define body where "body = concat (map (be_bytes w) asns)"
  define val where "val = encode_segment asn4 (t, asns) @ rest"
  have val: "val = of_nat t # of_nat (length asns) # body @ rest"
    by (simp add: val_def encode_segment_def body_def w_def)
  have lb: "length body = length asns * w"
    unfolding body_def by (rule length_concat_fixed) (simp add: length_be_bytes)
  have t256: "t < 256" using t by auto
  have ty: "unat (val ! 0) = t" using t256 by (simp add: val unat_of_nat_byte)
  have ct: "unat (val ! 1) = length asns" using cnt by (simp add: val unat_of_nat_byte)
  have ne: "val \<noteq> []" and l2: "\<not> length val < 2" by (simp_all add: val)
  have enough: "\<not> length val - 2 < length asns * w" by (simp add: val lb)
  have rest: "drop (2 + length asns * w) val = rest" by (simp add: val lb)
  have chunk: "be_nat (slice val (2 + k * w) (2 + k * w + w)) = asns ! k" if "k < length asns" for k
  proof -
    have "slice val (2 + k * w) (2 + k * w + w) = take w (drop (k * w) (body @ rest))"
      by (simp add: slice_def val)
    also have "\<dots> = be_bytes w (asns ! k)"
      unfolding body_def using that by (intro chunk_of_concat) (simp_all add: length_be_bytes)
    finally show ?thesis using fit [of "asns ! k"] that by (simp add: be_nat_be_bytes w_def)
  qed
  have asns: "map (\<lambda>k. be_nat (slice val (2 + k * w) (2 + k * w + w))) [0..<length asns] = asns"
  proof -
    have "map (\<lambda>k. be_nat (slice val (2 + k * w) (2 + k * w + w))) [0..<length asns] =
        map (\<lambda>k. asns ! k) [0..<length asns]"
    proof (rule map_cong [OF refl])
      fix k assume "k \<in> set [0..<length asns]"
      then have "k < length asns" by simp
      then show "be_nat (slice val (2 + k * w) (2 + k * w + w)) = asns ! k" by (rule chunk)
    qed
    then show ?thesis by (simp only: map_nth)
  qed
  have "ASPath_parse asn4 val =
     (case ASPath_parse asn4 rest of Inl e \<Rightarrow> Inl e | Inr p \<Rightarrow> Inr ((t, asns) # p))"
  proof -
    have ne': "(val = []) = False" using ne by simp
    have l2': "(length val < 2) = False" using l2 by simp
    have nt: "(t \<notin> {1, 2, 3, 4}) = False" using t by simp
    have enough': "(length val - 2 < length asns * w) = False" using enough by simp
    show ?thesis
      by (subst ASPath_parse.simps)
        (simp only: ne' l2' if_False Let_def ty ct nt enough' rest asns w_def [symmetric])
  qed
  then show ?thesis by (simp add: val_def)
qed

lemma parse_raw_append:
  "wf_path asn4 pre \<Longrightarrow> counts_fit pre \<Longrightarrow>
   ASPath_parse asn4 (aspath_raw asn4 pre @ rest) =
     (case ASPath_parse asn4 rest of Inl e \<Rightarrow> Inl e | Inr p \<Rightarrow> Inr (pre @ p))"
proof (induction pre)
  case Nil
  then show ?case by (simp add: aspath_raw_Nil split: sum.splits)
next
  case (Cons seg pre)
  obtain t asns where seg: "seg = (t, asns)" by (cases seg)
  from Cons.prems have wf: "wf_path asn4 pre" and cf: "counts_fit pre"
    and t: "t \<in> {1, 2, 3, 4}"
    and cnt: "length asns \<le> 255" and fit: "\<And>a. a \<in> set asns \<Longrightarrow> a < 256 ^ asn_width asn4"
    by (auto simp: wf_path_def counts_fit_def seg list_all_iff)
  have "ASPath_parse asn4 (aspath_raw asn4 (seg # pre) @ rest) =
      ASPath_parse asn4 (encode_segment asn4 (t, asns) @ (aspath_raw asn4 pre @ rest))"
    by (simp only: aspath_raw_Cons seg append_assoc)
  also have "\<dots> = (case ASPath_parse asn4 (aspath_raw asn4 pre @ rest) of
      Inl e \<Rightarrow> Inl e | Inr p \<Rightarrow> Inr ((t, asns) # p))"
    by (rule parse_segment [OF t cnt fit])
  finally show ?case
    by (simp add: Cons.IH [OF wf cf] seg split: sum.splits)
qed

lemma parse_nil: "ASPath_parse asn4 [] = Inr []"
  by (subst ASPath_parse.simps) simp

lemma parse_one_byte:
  "length r = 1 \<Longrightarrow> ASPath_parse asn4 r = Inl (UpdateMessageError ERR_MSG_UPDATE_ATTR_LEN)"
proof -
  assume len: "length r = 1"
  have ne: "(r = []) = False" and l2: "(length r < 2) = True" using len by auto
  show ?thesis
    by (subst ASPath_parse.simps) (simp only: ne l2 if_False if_True)
qed

lemma parse_bad_type:
  "2 \<le> length r \<Longrightarrow> unat (r ! 0) \<notin> {1, 2, 3, 4} \<Longrightarrow>
   ASPath_parse asn4 r = Inl (UpdateMessageError ERR_MSG_UPDATE_MALFORMED_ASPATH)"
proof -
  assume len: "2 \<le> length r" and bad: "unat (r ! 0) \<notin> {1, 2, 3, 4}"
  have ne: "(r = []) = False" and l2: "(length r < 2) = False" using len by auto
  have bad': "(unat (r ! 0) \<notin> {1, 2, 3, 4}) = True" using bad by simp
  show ?thesis
    by (subst ASPath_parse.simps) (simp only: ne l2 bad' if_False if_True Let_def)
qed

lemma parse_short_body:
  "2 \<le> length r \<Longrightarrow> unat (r ! 0) \<in> {1, 2, 3, 4} \<Longrightarrow>
   length r - 2 < unat (r ! 1) * asn_width asn4 \<Longrightarrow>
   ASPath_parse asn4 r = Inl (UpdateMessageError ERR_MSG_UPDATE_ATTR_LEN)"
proof -
  assume len: "2 \<le> length r" and good: "unat (r ! 0) \<in> {1, 2, 3, 4}"
    and short: "length r - 2 < unat (r ! 1) * asn_width asn4"
  have ne: "(r = []) = False" and l2: "(length r < 2) = False" using len by auto
  have good': "(unat (r ! 0) \<notin> {1, 2, 3, 4}) = False" using good by simp
  have short': "(length r - 2 < unat (r ! 1) * asn_width asn4) = True" using short by simp
  show ?thesis
    by (subst ASPath_parse.simps) (simp only: ne l2 good' short' if_False if_True Let_def)
qed

section \<open>AS_PATH on concrete paths\<close>

lemma be_bytes_2: "be_bytes 2 n = [of_nat (n div 256), of_nat n]"
  by (simp add: numeral_2_eq_2)

lemma raw_literal:
  "aspath_raw False [(2, [3257, 31027, 34848, 21465])] =
     [0x02, 0x04, 0x0c, 0xb9, 0x79, 0x33, 0x88, 0x20, 0x53, 0xd9]"
  by (simp add: aspath_raw_def asn_width_def be_bytes_2)

lemma wf_literal: "wf_path False [(2, [3257, 31027, 34848, 21465])]"
  by (simp add: wf_path_def asn_width_def)

lemma construct_literal:
  "ASPath_construct False [(2, [3257, 31027, 34848, 21465])] =
     Inr [0x40, 0x02, 0x0a, 0x02, 0x04, 0x0c, 0xb9, 0x79, 0x33, 0x88, 0x20, 0x53, 0xd9]"
  by (simp add: ASPath_construct_def raw_literal attr_header_def asn_width_def)

lemma construct_char:
  "ASPath_construct asn4 path = Inr bs \<longleftrightarrow>
     list_all (\<lambda>(seg_type, asns).
        seg_type \<le> 255 \<and> list_all (\<lambda>asn. asn < 256 ^ asn_width asn4) asns) path \<and>
     counts_fit path \<and> length (aspath_raw asn4 path) < 65536 \<and>
     bs = attr_header (length (aspath_raw asn4 path)) @ aspath_raw asn4 path"
  by (auto simp: ASPath_construct_def counts_fit_def list_all_iff)

lemma construct_wf:
  assumes wf: "wf_path asn4 path" and cf: "counts_fit path"
    and len: "length (aspath_raw asn4 path) < 65536"
  shows "ASPath_construct asn4 path =
     Inr (attr_header (length (aspath_raw asn4 path)) @ aspath_raw asn4 path)"
proof -
  have "list_all (\<lambda>(seg_type, asns).
        seg_type \<le> 255 \<and> list_all (\<lambda>asn. asn < 256 ^ asn_width asn4) asns) path"
    using wf by (auto simp: wf_path_def list_all_iff)
  then show ?thesis using cf len by (simp add: construct_char)
qed

lemma attr_header_short: "n \<le> 255 \<Longrightarrow> attr_header n = [0x40, 0x02, of_nat n]"
  by (simp add: attr_header_def)

lemma attr_header_long:
  "255 < n \<Longrightarrow> attr_header n = [0x50, 0x02, of_nat (n div 256), of_nat n]"
  by (simp add: attr_header_def be_bytes_2)

lemma raw_two_segments:
  "aspath_raw False [(4, [1001, 1002]), (3, [1003, 1004])] =
     [0x04, 0x02, 0x03, 0xe9, 0x03, 0xea, 0x03, 0x02, 0x03, 0xeb, 0x03, 0xec]"
  by (simp add: aspath_raw_def asn_width_def be_bytes_2)

lemma construct_two_segments:
  "ASPath_construct False [(4, [1001, 1002]), (3, [1003, 1004])] =
     Inr [0x40, 0x02, 0x0c, 0x04, 0x02, 0x03, 0xe9, 0x03, 0xea, 0x03, 0x02, 0x03, 0xeb, 0x03, 0xec]"
  by (simp add: ASPath_construct_def raw_two_segments attr_header_def asn_width_def)

lemma wf_long: "wf_path False [(2, replicate 128 65000)]"
  by (simp add: wf_path_def asn_width_def list_all_iff)

lemma length_concat_replicate: "length (concat (replicate n xs)) = n * length xs"
  by (induction n) simp_all

lemma length_raw_long: "length (aspath_raw False [(2, replicate 128 65000)]) = 258"
  by (simp add: aspath_raw_def asn_width_def length_concat_replicate length_be_bytes)

lemma construct_long:
  "ASPath_construct False [(2, replicate 128 65000)] =
     Inr ([0x50, 0x02, 0x01, 0x02] @ aspath_raw False [(2, replicate 128 65000)])"
proof -
  have "counts_fit [(2, replicate 128 65000)]" by (simp add: counts_fit_def)
  from construct_wf [OF wf_long this] show ?thesis
    by (simp add: length_raw_long attr_header_long)
qed

lemma raw_one_segment: "aspath_raw False [(2, [100])] = [0x02, 0x01, 0x00, 0x64]"
  by (simp add: aspath_raw_def asn_width_def be_bytes_2)

section \<open>Claims about the AS_PATH codec\<close>

text \<open>
  C1, as amended. For every path whose segment types are among 1, 2, 3, 4 and whose ASNs
  fit the negotiated width, and for either value of \<open>asn4\<close>: whenever
  \<^verbatim>\<open>ASPath.construct\<close> returns octets, they are the attribute header followed by the
  concatenated segments, the header being 40 02 and a one-byte length when the segments
  take at most 255 octets and 50 02 and a two-byte length when they take more; and
  \<^verbatim>\<open>ASPath.parse\<close> under the same flag, applied to the octets after the header,
  returns the path exactly, segments and ASNs in order. \<^verbatim>\<open>ASPath.construct\<close> returns
  octets at least when every segment holds at most 255 ASNs and the segments take fewer
  than 65536 octets. Encoding the single AS_SEQUENCE 3257, 31027, 34848, 21465 with
  2-byte ASNs yields the octets 40 02 0a 02 04 0c b9 79 33 88 20 53 d9.
\<close>

theorem ASPath_roundtrip_value:
  "(wf_path asn4 path \<and> ASPath_construct asn4 path = Inr bs \<longrightarrow>
      (length (aspath_raw asn4 path) \<le> 255 \<longrightarrow>
         bs = [0x40, 0x02, of_nat (length (aspath_raw asn4 path))] @ aspath_raw asn4 path \<and>
         ASPath_parse asn4 (drop 3 bs) = Inr path) \<and>
      (255 < length (aspath_raw asn4 path) \<longrightarrow>
         bs = [0x50, 0x02, of_nat (length (aspath_raw asn4 path) div 256),
               of_nat (length (aspath_raw asn4 path))] @ aspath_raw asn4 path \<and>
         ASPath_parse asn4 (drop 4 bs) = Inr path)) \<and>
   (wf_path asn4 path \<and> counts_fit path \<and> length (aspath_raw asn4 path) < 65536 \<longrightarrow>
      (\<exists>octets. ASPath_construct asn4 path = Inr octets)) \<and>
   ASPath_construct False [(2, [3257, 31027, 34848, 21465])] =
     Inr [0x40, 0x02, 0x0a, 0x02, 0x04, 0x0c, 0xb9, 0x79, 0x33, 0x88, 0x20, 0x53, 0xd9]"
proof (intro conjI impI; (elim conjE)?)
  assume wf: "wf_path asn4 path" and c: "ASPath_construct asn4 path = Inr bs"
    and short: "length (aspath_raw asn4 path) \<le> 255"
  from c have cf: "counts_fit path"
    and bs: "bs = attr_header (length (aspath_raw asn4 path)) @ aspath_raw asn4 path"
    by (simp_all add: construct_char)
  show b: "bs = [0x40, 0x02, of_nat (length (aspath_raw asn4 path))] @ aspath_raw asn4 path"
    using bs short by (simp add: attr_header_short)
  from parse_raw_append [OF wf cf, of "[]"]
  show "ASPath_parse asn4 (drop 3 bs) = Inr path"
    by (simp add: b parse_nil)
next
  assume wf: "wf_path asn4 path" and c: "ASPath_construct asn4 path = Inr bs"
    and long: "255 < length (aspath_raw asn4 path)"
  from c have cf: "counts_fit path"
    and bs: "bs = attr_header (length (aspath_raw asn4 path)) @ aspath_raw asn4 path"
    by (simp_all add: construct_char)
  show b: "bs = [0x50, 0x02, of_nat (length (aspath_raw asn4 path) div 256),
               of_nat (length (aspath_raw asn4 path))] @ aspath_raw asn4 path"
    using bs long by (simp add: attr_header_long)
  from parse_raw_append [OF wf cf, of "[]"]
  show "ASPath_parse asn4 (drop 4 bs) = Inr path"
    by (simp add: b parse_nil)
next
  assume "wf_path asn4 path" "counts_fit path" "length (aspath_raw asn4 path) < 65536"
  then show "\<exists>octets. ASPath_construct asn4 path = Inr octets"
    by (simp add: construct_wf)
next
  show "ASPath_construct False [(2, [3257, 31027, 34848, 21465])] =
     Inr [0x40, 0x02, 0x0a, 0x02, 0x04, 0x0c, 0xb9, 0x79, 0x33, 0x88, 0x20, 0x53, 0xd9]"
    by (rule construct_literal)
qed

theorem ASPath_roundtrip_value_witness:
  "ASPath_construct False [(4, [1001, 1002]), (3, [1003, 1004])] =
     Inr [0x40, 0x02, 0x0c, 0x04, 0x02, 0x03, 0xe9, 0x03, 0xea, 0x03, 0x02, 0x03, 0xeb, 0x03, 0xec] \<and>
   ASPath_parse False [0x04, 0x02, 0x03, 0xe9, 0x03, 0xea, 0x03, 0x02, 0x03, 0xeb, 0x03, 0xec] =
     Inr [(4, [1001, 1002]), (3, [1003, 1004])] \<and>
   ASPath_construct False [(2, replicate 128 65000)] =
     Inr ([0x50, 0x02, 0x01, 0x02] @ aspath_raw False [(2, replicate 128 65000)]) \<and>
   ASPath_parse False (aspath_raw False [(2, replicate 128 65000)]) = Inr [(2, replicate 128 65000)]"
proof -
  have wf: "wf_path False [(4, [1001, 1002]), (3, [1003, 1004])]"
    by (simp add: wf_path_def asn_width_def)
  have short: "ASPath_parse False
      [0x04, 0x02, 0x03, 0xe9, 0x03, 0xea, 0x03, 0x02, 0x03, 0xeb, 0x03, 0xec] =
     Inr [(4, [1001, 1002]), (3, [1003, 1004])]"
    using ASPath_roundtrip_value [of False "[(4, [1001, 1002]), (3, [1003, 1004])]"
        "[0x40, 0x02, 0x0c, 0x04, 0x02, 0x03, 0xe9, 0x03, 0xea, 0x03, 0x02, 0x03, 0xeb, 0x03, 0xec]"]
      wf construct_two_segments
    by (simp add: raw_two_segments)
  have long: "ASPath_parse False (aspath_raw False [(2, replicate 128 65000)]) =
      Inr [(2, replicate 128 65000)]"
    using ASPath_roundtrip_value [of False "[(2, replicate 128 65000)]"
        "[0x50, 0x02, 0x01, 0x02] @ aspath_raw False [(2, replicate 128 65000)]"]
      wf_long construct_long
    by (simp add: length_raw_long)
  from short long construct_two_segments construct_long show ?thesis by blast
qed

text \<open>
  The claim C1 as first stated parses the octets that \<^verbatim>\<open>ASPath.construct\<close> produces.
  Those start with the attribute header, whose flags byte 40 is read as a segment type:
  the parse of the literal above is the Malformed AS_PATH error, not the path. And a
  segment of 256 ASNs, each of which fits its width, has a count that does not fit the
  count byte, so no octets are produced for it.
\<close>

theorem ASPath_roundtrip_counterexample:
  "wf_path False [(2, [3257, 31027, 34848, 21465])] \<and>
   ASPath_construct False [(2, [3257, 31027, 34848, 21465])] =
     Inr [0x40, 0x02, 0x0a, 0x02, 0x04, 0x0c, 0xb9, 0x79, 0x33, 0x88, 0x20, 0x53, 0xd9] \<and>
   ASPath_parse False
     [0x40, 0x02, 0x0a, 0x02, 0x04, 0x0c, 0xb9, 0x79, 0x33, 0x88, 0x20, 0x53, 0xd9] =
     Inl (UpdateMessageError ERR_MSG_UPDATE_MALFORMED_ASPATH) \<and>
   ASPath_parse False
     [0x40, 0x02, 0x0a, 0x02, 0x04, 0x0c, 0xb9, 0x79, 0x33, 0x88, 0x20, 0x53, 0xd9] \<noteq>
     Inr [(2, [3257, 31027, 34848, 21465])] \<and>
   wf_path False [(2, replicate 256 65000)] \<and>
   ASPath_construct False [(2, replicate 256 65000)] = Inl StructError"
proof -
  have bad: "ASPath_parse False
     [0x40, 0x02, 0x0a, 0x02, 0x04, 0x0c, 0xb9, 0x79, 0x33, 0x88, 0x20, 0x53, 0xd9] =
     Inl (UpdateMessageError ERR_MSG_UPDATE_MALFORMED_ASPATH)"
    by (rule parse_bad_type) simp_all
  have wf256: "wf_path False [(2, replicate 256 65000)]"
    by (simp add: wf_path_def asn_width_def list_all_iff)
  have none: "ASPath_construct False [(2, replicate 256 65000)] = Inl StructError"
    by (simp add: ASPath_construct_def)
  show ?thesis
    by (simp add: wf_literal construct_literal bad wf256 none)
qed

text \<open>
  C8, as amended. \<^verbatim>\<open>ASPath.parse\<close> returns the empty path on the empty buffer. After
  any well-formed segments: a remainder of one byte, too short for a segment header,
  fails with the Attribute Length Error sub-code (5), whatever that byte is; a complete
  header whose type byte is not 1, 2, 3 or 4 fails with the Malformed AS_PATH sub-code
  (11), as first byte 05 does, whatever its count; and a complete header of a valid type
  whose count asks for more 2-byte or 4-byte ASNs than remain fails with the Attribute
  Length Error sub-code.
\<close>

theorem ASPath_parse_errors:
  "ASPath_parse asn4 [] = Inr [] \<and>
   (wf_path asn4 pre \<and> counts_fit pre \<and> length r = 1 \<longrightarrow>
      ASPath_parse asn4 (aspath_raw asn4 pre @ r) =
        Inl (UpdateMessageError ERR_MSG_UPDATE_ATTR_LEN)) \<and>
   (wf_path asn4 pre \<and> counts_fit pre \<and> 2 \<le> length r \<and>
    unat (r ! 0) \<notin> {1, 2, 3, 4} \<longrightarrow>
      ASPath_parse asn4 (aspath_raw asn4 pre @ r) =
        Inl (UpdateMessageError ERR_MSG_UPDATE_MALFORMED_ASPATH)) \<and>
   (wf_path asn4 pre \<and> counts_fit pre \<and> 2 \<le> length r \<and>
    unat (r ! 0) \<in> {1, 2, 3, 4} \<and>
    length r - 2 < unat (r ! 1) * asn_width asn4 \<longrightarrow>
      ASPath_parse asn4 (aspath_raw asn4 pre @ r) =
        Inl (UpdateMessageError ERR_MSG_UPDATE_ATTR_LEN)) \<and>
   ERR_MSG_UPDATE_ATTR_LEN = 5 \<and> ERR_MSG_UPDATE_MALFORMED_ASPATH = 11 \<and>
   ASPath_parse False [0x05, 0x04, 0x0c, 0xb9, 0x79, 0x33, 0x88, 0x20, 0x53, 0xd9] =
     Inl (UpdateMessageError ERR_MSG_UPDATE_MALFORMED_ASPATH)"
proof (intro conjI impI; (elim conjE)?)
  show "ASPath_parse asn4 [] = Inr []" by (rule parse_nil)
next
  assume "wf_path asn4 pre" "counts_fit pre" "length r = 1"
  then show "ASPath_parse asn4 (aspath_raw asn4 pre @ r) =
        Inl (UpdateMessageError ERR_MSG_UPDATE_ATTR_LEN)"
    by (simp add: parse_raw_append parse_one_byte)
next
  assume "wf_path asn4 pre" "counts_fit pre" "2 \<le> length r" "unat (r ! 0) \<notin> {1, 2, 3, 4}"
  then show "ASPath_parse asn4 (aspath_raw asn4 pre @ r) =
        Inl (UpdateMessageError ERR_MSG_UPDATE_MALFORMED_ASPATH)"
    by (simp add: parse_raw_append parse_bad_type)
next
  assume "wf_path asn4 pre" "counts_fit pre" "2 \<le> length r" "unat (r ! 0) \<in> {1, 2, 3, 4}"
    "length r - 2 < unat (r ! 1) * asn_width asn4"
  then show "ASPath_parse asn4 (aspath_raw asn4 pre @ r) =
        Inl (UpdateMessageError ERR_MSG_UPDATE_ATTR_LEN)"
    by (simp add: parse_raw_append parse_short_body)
next
  show "ASPath_parse False [0x05, 0x04, 0x0c, 0xb9, 0x79, 0x33, 0x88, 0x20, 0x53, 0xd9] =
     Inl (UpdateMessageError ERR_MSG_UPDATE_MALFORMED_ASPATH)"
    by (rule parse_bad_type) simp_all
qed (simp_all add: ERR_MSG_UPDATE_ATTR_LEN_def ERR_MSG_UPDATE_MALFORMED_ASPATH_def)

theorem ASPath_parse_errors_witness:
  "ASPath_parse False [0x02, 0x01, 0x00, 0x64, 0x02] = Inl (UpdateMessageError 5) \<and>
   ASPath_parse False [0x02, 0x01, 0x00, 0x64, 0x05, 0x01, 0x00, 0x64] =
     Inl (UpdateMessageError 11) \<and>
   ASPath_parse False [0x02, 0x01, 0x00, 0x64, 0x02, 0x01, 0x00] = Inl (UpdateMessageError 5) \<and>
   ASPath_parse True [0x02, 0x01, 0x00, 0x00, 0x00] = Inl (UpdateMessageError 5)"
proof -
  have wf: "wf_path False [(2, [100])]" "wf_path True []"
    "counts_fit [(2, [100])]" "counts_fit []"
    by (simp_all add: wf_path_def counts_fit_def asn_width_def)
  have h1: "wf_path False [(2, [100])] \<and> counts_fit [(2, [100])] \<and> length [0x02 :: byte] = 1"
    using wf by simp
  have h2: "wf_path False [(2, [100])] \<and> counts_fit [(2, [100])] \<and>
      2 \<le> length [0x05, 0x01, 0x00, 0x64 :: byte] \<and>
      unat ([0x05, 0x01, 0x00, 0x64 :: byte] ! 0) \<notin> {1, 2, 3, 4}"
    using wf by simp
  have h3: "wf_path False [(2, [100])] \<and> counts_fit [(2, [100])] \<and>
      2 \<le> length [0x02, 0x01, 0x00 :: byte] \<and>
      unat ([0x02, 0x01, 0x00 :: byte] ! 0) \<in> {1, 2, 3, 4} \<and>
      length [0x02, 0x01, 0x00 :: byte] - 2 < unat ([0x02, 0x01, 0x00 :: byte] ! 1) * asn_width False"
    using wf by (simp add: asn_width_def)
  have h4: "wf_path True [] \<and> counts_fit [] \<and>
      2 \<le> length [0x02, 0x01, 0x00, 0x00, 0x00 :: byte] \<and>
      unat ([0x02, 0x01, 0x00, 0x00, 0x00 :: byte] ! 0) \<in> {1, 2, 3, 4} \<and>
      length [0x02, 0x01, 0x00, 0x00, 0x00 :: byte] - 2 <
        unat ([0x02, 0x01, 0x00, 0x00, 0x00 :: byte] ! 1) * asn_width True"
    using wf by (simp add: asn_width_def)
  have c1: "ASPath_parse False (aspath_raw False [(2, [100])] @ [0x02]) =
      Inl (UpdateMessageError ERR_MSG_UPDATE_ATTR_LEN)"
    using ASPath_parse_errors [of False "[(2, [100])]" "[0x02]"] h1 by blast
  have c2: "ASPath_parse False (aspath_raw False [(2, [100])] @ [0x05, 0x01, 0x00, 0x64]) =
      Inl (UpdateMessageError ERR_MSG_UPDATE_MALFORMED_ASPATH)"
    using ASPath_parse_errors [of False "[(2, [100])]" "[0x05, 0x01, 0x00, 0x64]"] h2 by blast
  have c3: "ASPath_parse False (aspath_raw False [(2, [100])] @ [0x02, 0x01, 0x00]) =
      Inl (UpdateMessageError ERR_MSG_UPDATE_ATTR_LEN)"
    using ASPath_parse_errors [of False "[(2, [100])]" "[0x02, 0x01, 0x00]"] h3 by blast
  have c4: "ASPath_parse True (aspath_raw True [] @ [0x02, 0x01, 0x00, 0x00, 0x00]) =
      Inl (UpdateMessageError ERR_MSG_UPDATE_ATTR_LEN)"
    using ASPath_parse_errors [of True "[]" "[0x02, 0x01, 0x00, 0x00, 0x00]"] h4 by blast
  from c1 c2 c3 c4 show ?thesis
    by (simp add: raw_one_segment aspath_raw_Nil ERR_MSG_UPDATE_ATTR_LEN_def
        ERR_MSG_UPDATE_MALFORMED_ASPATH_def)
qed

text \<open>
  The claim C8 as first stated gives the Attribute Length Error to every short body and
  the Malformed AS_PATH error to every bad type byte. The two overlap: the buffer
  05 01 00 has a bad type and a short body and fails with Malformed AS_PATH, and the
  single byte 05 is a bad type byte without a header and fails with the Attribute
  Length Error.
\<close>

theorem ASPath_parse_errors_counterexample:
  "length [0x05, 0x01, 0x00 :: byte] - 2 < unat ([0x05, 0x01, 0x00 :: byte] ! 1) * asn_width False \<and>
   ASPath_parse False [0x05, 0x01, 0x00] =
     Inl (UpdateMessageError ERR_MSG_UPDATE_MALFORMED_ASPATH) \<and>
   ASPath_parse False [0x05, 0x01, 0x00] \<noteq> Inl (UpdateMessageError ERR_MSG_UPDATE_ATTR_LEN) \<and>
   unat ([0x05 :: byte] ! 0) \<notin> {1, 2, 3, 4} \<and>
   ASPath_parse False [0x05] = Inl (UpdateMessageError ERR_MSG_UPDATE_ATTR_LEN) \<and>
   ASPath_parse False [0x05] \<noteq> Inl (UpdateMessageError ERR_MSG_UPDATE_MALFORMED_ASPATH)"
proof -
  have a: "ASPath_parse False [0x05, 0x01, 0x00] =
     Inl (UpdateMessageError ERR_MSG_UPDATE_MALFORMED_ASPATH)"
    by (rule parse_bad_type) simp_all
  have b: "ASPath_parse False [0x05] = Inl (UpdateMessageError ERR_MSG_UPDATE_ATTR_LEN)"
    by (rule parse_one_byte) simp
  show ?thesis
    by (simp add: a b asn_width_def ERR_MSG_UPDATE_ATTR_LEN_def
        ERR_MSG_UPDATE_MALFORMED_ASPATH_def)
qed

end
